theory Spec2Isabelle
  imports Complex_Main "HOL-Library.Word"
begin

unbundle bit_operations_syntax

section \<open>Byte-addressed memory\<close>

text \<open>
  The heap region is a flat array of bytes.  Addresses are integers: the C code only ever
  adds and subtracts offsets from \<open>char *\<close> values, and the value \<open>(void *)-1\<close>
  that the region provider returns on failure is the address \<open>-1\<close>, which is what
  the cast \<open>(long)\<close> in \<open>extend_heap\<close> reads.  \<open>NULL\<close> is the address \<open>0\<close>.
  Words are stored little-endian, as on the LP64 target the source is written for
  (\<open>unsigned int\<close> is 4 bytes, pointers, \<open>unsigned long\<close> and \<open>size_t\<close> are 8 bytes).
\<close>

type_synonym addr = int
type_synonym memory = "addr \<Rightarrow> 8 word"

text \<open>\<open>GET(p)\<close> and \<open>PUT(p, val)\<close>: a 4-byte access through \<open>unsigned int *\<close>.\<close>

definition GET :: "memory \<Rightarrow> addr \<Rightarrow> 32 word" where
  "GET m p = ucast (m p) OR push_bit 8 (ucast (m (p + 1)))
             OR push_bit 16 (ucast (m (p + 2))) OR push_bit 24 (ucast (m (p + 3)))"

definition PUT :: "memory \<Rightarrow> addr \<Rightarrow> 32 word \<Rightarrow> memory" where
  "PUT m p v = m(p := ucast v, p + 1 := ucast (drop_bit 8 v),
                 p + 2 := ucast (drop_bit 16 v), p + 3 := ucast (drop_bit 24 v))"

text \<open>\<open>GET_8(p)\<close> and \<open>PUT_8(p, val)\<close>: an 8-byte access, low word first.\<close>

definition GET_8 :: "memory \<Rightarrow> addr \<Rightarrow> 64 word" where
  "GET_8 m p = ucast (GET m p) OR push_bit 32 (ucast (GET m (p + 4)))"

definition PUT_8 :: "memory \<Rightarrow> addr \<Rightarrow> 64 word \<Rightarrow> memory" where
  "PUT_8 m p v = PUT (PUT m p (ucast v)) (p + 4) (ucast (drop_bit 32 v))"

text \<open>The C library's \<open>memcpy\<close> (on regions that do not overlap) and \<open>bzero\<close>.\<close>

definition memcpy :: "memory \<Rightarrow> addr \<Rightarrow> addr \<Rightarrow> 64 word \<Rightarrow> memory" where
  "memcpy m dst src n = (\<lambda>a. if dst \<le> a \<and> a < dst + uint n then m (src + (a - dst)) else m a)"

definition bzero :: "memory \<Rightarrow> addr \<Rightarrow> 64 word \<Rightarrow> memory" where
  "bzero m p n = (\<lambda>a. if p \<le> a \<and> a < p + uint n then 0 else m a)"

section \<open>The macros shared by \<open>mm.c\<close> and \<open>mm_work.c\<close>\<close>

abbreviation (input) WSIZE :: "'a::numeral" where "WSIZE \<equiv> 4"
abbreviation (input) DSIZE :: "'a::numeral" where "DSIZE \<equiv> 8"
abbreviation (input) QSIZE :: "'a::numeral" where "QSIZE \<equiv> 16"
abbreviation (input) OVERHEAD :: "'a::numeral" where "OVERHEAD \<equiv> 8"
abbreviation (input) SEG_SIZE :: "'a::numeral" where "SEG_SIZE \<equiv> 8"
abbreviation (input) UINT_MAX :: "32 word" where "UINT_MAX \<equiv> 4294967295"

text \<open>\<open>ALIGN(p) = ((size_t)(p) + 7) & ~0x7\<close>, computed in \<open>size_t\<close>.\<close>

definition ALIGN :: "64 word \<Rightarrow> 64 word" where
  "ALIGN p = (p + (8 - 1)) AND NOT 7"

definition MAX2 :: "64 word \<Rightarrow> 64 word \<Rightarrow> 64 word" where
  "MAX2 x y = (if x > y then x else y)"

definition PACK :: "'a::len word \<Rightarrow> 'a word \<Rightarrow> 'a word" where
  "PACK sz alloc = sz OR alloc"

definition GET_SIZE :: "memory \<Rightarrow> addr \<Rightarrow> 32 word" where
  "GET_SIZE m p = GET m p AND NOT 7"

definition GET_ALLOC :: "memory \<Rightarrow> addr \<Rightarrow> 32 word" where
  "GET_ALLOC m p = GET m p AND 1"

definition HDRP :: "addr \<Rightarrow> addr" where
  "HDRP bp = bp - WSIZE"

definition FTRP :: "memory \<Rightarrow> addr \<Rightarrow> addr" where
  "FTRP m bp = bp + uint (GET_SIZE m (HDRP bp)) - DSIZE"

definition NEXT_BLKP :: "memory \<Rightarrow> addr \<Rightarrow> addr" where
  "NEXT_BLKP m bp = bp + uint (GET_SIZE m (bp - WSIZE))"

definition PREV_BLKP :: "memory \<Rightarrow> addr \<Rightarrow> addr" where
  "PREV_BLKP m bp = bp - uint (GET_SIZE m (bp - DSIZE))"

text \<open>
  \<open>NEXT(bp)\<close> and \<open>PREV(bp)\<close> are the 8-byte link fields at \<open>bp\<close> and \<open>bp + 8\<close>;
  \<open>set_NEXT\<close> and \<open>set_PREV\<close> are the assignments \<open>NEXT(bp) = v\<close> and \<open>PREV(bp) = v\<close>.
\<close>

definition NEXT :: "memory \<Rightarrow> addr \<Rightarrow> addr" where
  "NEXT m bp = uint (GET_8 m bp)"

definition PREV :: "memory \<Rightarrow> addr \<Rightarrow> addr" where
  "PREV m bp = uint (GET_8 m (bp + DSIZE))"

definition set_NEXT :: "memory \<Rightarrow> addr \<Rightarrow> addr \<Rightarrow> memory" where
  "set_NEXT m bp v = PUT_8 m bp (word_of_int v)"

definition set_PREV :: "memory \<Rightarrow> addr \<Rightarrow> addr \<Rightarrow> memory" where
  "set_PREV m bp v = PUT_8 m (bp + DSIZE) (word_of_int v)"

section \<open>The region provider\<close>

record heap =
  mem :: memory
  mem_brk :: addr
  mem_max_addr :: addr
  heap_listp :: addr

text \<open>
  Modelled from the spec: the region provider \<open>extend\<close> (\<open>mem_sbrk\<close> of \<open>memlib.c\<close>) is
  not among the sources.  Following the spec's region interface, a successful call returns
  the base address of the new region, which is the previous end of the heap, and moves the
  end up by \<open>n\<close> bytes; a failing call changes nothing and returns the error value, which
  the callers test as \<open>(void *)-1\<close>.  The provider fails when the region would pass its
  limit \<open>mem_max_addr\<close>.
\<close>

definition mem_sbrk :: "'a heap_scheme \<Rightarrow> 64 word \<Rightarrow> addr \<times> 'a heap_scheme" where
  "mem_sbrk s incr =
     (if mem_brk s + uint incr > mem_max_addr s then (- 1, s)
      else (mem_brk s, s\<lparr>mem_brk := mem_brk s + uint incr\<rparr>))"

section \<open>\<open>mm.c\<close>: one explicit free list\<close>

record mm = heap +
  rootp :: addr

text \<open>\<open>mm_unlink\<close>: each macro reads the memory as it is when it is evaluated.\<close>

definition mm_unlink :: "mm \<Rightarrow> addr \<Rightarrow> mm" where
  "mm_unlink s bp =
     (let s1 = (if PREV (mem s) bp \<noteq> 0
                then s\<lparr>mem := set_NEXT (mem s) (PREV (mem s) bp) (NEXT (mem s) bp)\<rparr>
                else s\<lparr>rootp := NEXT (mem s) bp\<rparr>)
      in if NEXT (mem s1) bp \<noteq> 0
         then s1\<lparr>mem := set_PREV (mem s1) (NEXT (mem s1) bp) (PREV (mem s1) bp)\<rparr>
         else s1)"

text \<open>The tail of \<open>coalesce\<close>, \<open>place\<close> and \<open>mm_realloc\<close>: push a block on the list.\<close>

definition push_root :: "mm \<Rightarrow> addr \<Rightarrow> mm" where
  "push_root s bp =
     (let m1 = set_NEXT (mem s) bp (rootp s);
          m2 = set_PREV m1 bp 0;
          m3 = set_PREV m2 (rootp s) bp
      in s\<lparr>mem := m3, rootp := bp\<rparr>)"

definition coalesce :: "mm \<Rightarrow> addr \<Rightarrow> addr \<times> mm" where
  "coalesce s bp =
     (let m = mem s;
          prev_alloc = GET_ALLOC m (FTRP m (PREV_BLKP m bp));
          next_alloc = GET_ALLOC m (HDRP (NEXT_BLKP m bp));
          sz = (ucast (GET_SIZE m (HDRP bp)) :: 64 word)
      in if prev_alloc \<noteq> 0 \<and> next_alloc \<noteq> 0 then
           (bp, push_root s bp)
         else if prev_alloc \<noteq> 0 \<and> next_alloc = 0 then
           let sz' = sz + ucast (GET_SIZE m (HDRP (NEXT_BLKP m bp)));
               s1 = mm_unlink s (NEXT_BLKP m bp);
               m1 = PUT (mem s1) (HDRP bp) (ucast (PACK sz' 0));
               m2 = PUT m1 (FTRP m1 bp) (ucast (PACK sz' 0))
           in (bp, push_root (s1\<lparr>mem := m2\<rparr>) bp)
         else if prev_alloc = 0 \<and> next_alloc \<noteq> 0 then
           let sz' = sz + ucast (GET_SIZE m (HDRP (PREV_BLKP m bp)));
               thisHead = PREV_BLKP m bp;
               s1 = mm_unlink s (PREV_BLKP m bp);
               m1 = PUT (mem s1) (FTRP (mem s1) bp) (ucast (PACK sz' 0));
               m2 = PUT m1 (HDRP (PREV_BLKP m1 bp)) (ucast (PACK sz' 0))
           in (thisHead, push_root (s1\<lparr>mem := m2\<rparr>) thisHead)
         else
           let sz' = sz + ucast (GET_SIZE m (HDRP (PREV_BLKP m bp))
                                 + GET_SIZE m (FTRP m (NEXT_BLKP m bp)));
               thisHead = PREV_BLKP m bp;
               s1 = mm_unlink s (PREV_BLKP m bp);
               s2 = mm_unlink s1 (NEXT_BLKP (mem s1) bp);
               m1 = PUT (mem s2) (HDRP (PREV_BLKP (mem s2) bp)) (ucast (PACK sz' 0));
               m2 = PUT m1 (FTRP m1 (NEXT_BLKP m1 bp)) (ucast (PACK sz' 0))
           in (thisHead, push_root (s2\<lparr>mem := m2\<rparr>) thisHead))"

definition extend_heap :: "mm \<Rightarrow> 64 word \<Rightarrow> addr \<times> mm" where
  "extend_heap s words =
     (let sz = (if words mod 2 \<noteq> 0 then (words + 1) * WSIZE else words * WSIZE)
      in case mem_sbrk s sz of (bp, s1) \<Rightarrow>
           if bp < 0 then (0, s1)
           else
             let m1 = PUT (mem s1) (HDRP bp) (ucast (PACK sz 0));
                 m2 = PUT m1 (FTRP m1 bp) (ucast (PACK sz 0));
                 m3 = PUT m2 (HDRP (NEXT_BLKP m2 bp)) (PACK 0 1)
             in coalesce (s1\<lparr>mem := m3\<rparr>) bp)"

text \<open>\<open>CHUNKSIZE\<close> is \<open>1<<11\<close> in \<open>mm.c\<close>.\<close>

abbreviation (input) CHUNKSIZE :: "'a::numeral" where "CHUNKSIZE \<equiv> 2048"

definition mm_init :: "mm \<Rightarrow> int \<times> mm" where
  "mm_init s0 =
     (case mem_sbrk s0 (4 * DSIZE) of (p, s1) \<Rightarrow>
        if p = - 1 then (- 1, s1\<lparr>heap_listp := p\<rparr>)
        else
          let m1 = PUT_8 (mem s1) p 0;
              m2 = PUT_8 m1 (p + DSIZE) 0;
              m3 = PUT m2 (p + WSIZE * 4) 0;
              m4 = PUT m3 (p + WSIZE * 5) (PACK OVERHEAD 1);
              m5 = PUT m4 (p + WSIZE * 6) (PACK OVERHEAD 1);
              m6 = PUT m5 (p + WSIZE * 7) (PACK 0 1);
              s2 = s1\<lparr>mem := m6, heap_listp := p + WSIZE * 6, rootp := p\<rparr>
          in case extend_heap s2 (CHUNKSIZE div WSIZE) of (heap_start, s3) \<Rightarrow>
               if heap_start = 0 then (- 1, s3) else (0, s3))"

text \<open>
  The first-fit loop of \<open>find_fit\<close> follows \<open>NEXT\<close> links until it meets \<open>NULL\<close>;
  on a cyclic list it does not return, which is the value \<open>None\<close>.
\<close>

partial_function (option) find_fit_loop :: "memory \<Rightarrow> 64 word \<Rightarrow> addr \<Rightarrow> addr option" where
  "find_fit_loop m asize bp =
     (if bp = 0 then Some 0
      else if asize \<le> ucast (GET_SIZE m (HDRP bp)) then Some bp
      else find_fit_loop m asize (NEXT m bp))"

definition find_fit :: "mm \<Rightarrow> 64 word \<Rightarrow> addr option" where
  "find_fit s asize = find_fit_loop (mem s) asize (rootp s)"

definition place :: "mm \<Rightarrow> addr \<Rightarrow> 64 word \<Rightarrow> mm" where
  "place s bp asize =
     (let csize = (ucast (GET_SIZE (mem s) (HDRP bp)) :: 64 word)
      in if csize - asize \<ge> QSIZE + OVERHEAD then
           let m1 = PUT (mem s) (HDRP bp) (ucast (PACK asize 1));
               m2 = PUT m1 (FTRP m1 bp) (ucast (PACK asize 1));
               s1 = mm_unlink (s\<lparr>mem := m2\<rparr>) bp;
               bp' = NEXT_BLKP (mem s1) bp;
               m3 = PUT (mem s1) (HDRP bp') (ucast (PACK (csize - asize) 0));
               m4 = PUT m3 (FTRP m3 bp') (ucast (PACK (csize - asize) 0))
           in push_root (s1\<lparr>mem := m4\<rparr>) bp'
         else
           let m1 = PUT (mem s) (HDRP bp) (ucast (PACK csize 1));
               m2 = PUT m1 (FTRP m1 bp) (ucast (PACK csize 1))
           in mm_unlink (s\<lparr>mem := m2\<rparr>) bp)"

text \<open>The adjusted block size that \<open>mm_malloc\<close> computes from the request, in \<open>size_t\<close>.\<close>

definition malloc_asize :: "64 word \<Rightarrow> 64 word" where
  "malloc_asize sz =
     (if sz \<le> QSIZE then QSIZE + OVERHEAD
      else if sz \<le> 449 \<and> sz \<ge> 448 then 512
      else DSIZE * ((sz + OVERHEAD + (DSIZE - 1)) div DSIZE))"

definition mm_malloc :: "mm \<Rightarrow> 64 word \<Rightarrow> (addr \<times> mm) option" where
  "mm_malloc s0 sz =
     (let s = (if heap_listp s0 = 0 then snd (mm_init s0) else s0)
      in if sz \<le> 0 then Some (0, s)
         else
           let asize = malloc_asize sz
           in case find_fit s asize of
                None \<Rightarrow> None
              | Some bp \<Rightarrow>
                  if bp \<noteq> 0 then Some (bp, place s bp asize)
                  else
                    let extendsize = MAX2 asize CHUNKSIZE
                    in case extend_heap s (extendsize div WSIZE) of (bp', s1) \<Rightarrow>
                         if bp' = 0 then Some (0, s1)
                         else Some (bp', place s1 bp' asize))"

definition mm_free :: "mm \<Rightarrow> addr \<Rightarrow> mm" where
  "mm_free s ptr =
     (if ptr = 0 then s
      else
        let sz = (ucast (GET_SIZE (mem s) (HDRP ptr)) :: 64 word);
            s1 = (if heap_listp s = 0 then snd (mm_init s) else s);
            m1 = PUT (mem s1) (HDRP ptr) (ucast (PACK sz 0));
            m2 = PUT m1 (FTRP m1 ptr) (ucast (PACK sz 0))
        in snd (coalesce (s1\<lparr>mem := m2\<rparr>) ptr))"

text \<open>
  In \<open>mm_realloc\<close>, \<open>oldsize = GET_SIZE(HDRP(oldptr)) - OVERHEAD\<close> is a subtraction of
  \<open>unsigned int\<close> values, converted to \<open>size_t\<close> afterwards.
\<close>

definition mm_realloc :: "mm \<Rightarrow> addr \<Rightarrow> 64 word \<Rightarrow> (addr \<times> mm) option" where
  "mm_realloc s oldptr sz =
     (if sz = 0 then Some (0, mm_free s oldptr)
      else if oldptr = 0 then mm_malloc s sz
      else
        let rsize = (if sz \<le> QSIZE then QSIZE else ALIGN sz);
            oldsize = (ucast (GET_SIZE (mem s) (HDRP oldptr) - OVERHEAD) :: 64 word)
        in if rsize \<le> oldsize then Some (oldptr, s)
           else
             let nextsize = (ucast (GET_SIZE (mem s) (HDRP (NEXT_BLKP (mem s) oldptr))) :: 64 word)
             in if GET_ALLOC (mem s) (HDRP (NEXT_BLKP (mem s) oldptr)) = 0
                   \<and> nextsize \<ge> rsize - oldsize then
                  let nextptr = NEXT_BLKP (mem s) oldptr;
                      s1 = mm_unlink s nextptr
                  in if nextsize \<ge> rsize - oldsize + QSIZE + OVERHEAD then
                       let asize = rsize + OVERHEAD;
                           m1 = PUT (mem s1) (FTRP (mem s1) oldptr) 0;
                           m2 = PUT m1 (HDRP oldptr) (ucast (PACK asize 1));
                           m3 = PUT m2 (FTRP m2 oldptr) (ucast (PACK asize 1));
                           nextptr' = NEXT_BLKP m3 oldptr;
                           m4 = PUT m3 (HDRP nextptr') (ucast (PACK (nextsize - rsize + oldsize) 0));
                           m5 = PUT m4 (FTRP m4 nextptr') (ucast (PACK (nextsize - rsize + oldsize) 0))
                       in Some (oldptr, push_root (s1\<lparr>mem := m5\<rparr>) nextptr')
                     else
                       let asize = oldsize + nextsize;
                           m1 = PUT (mem s1) (FTRP (mem s1) oldptr) 0;
                           m2 = PUT m1 (HDRP oldptr) (ucast (PACK asize 1));
                           m3 = PUT m2 (FTRP m2 oldptr) (ucast (PACK asize 1))
                       in Some (oldptr, s1\<lparr>mem := m3\<rparr>)
                else
                  case mm_malloc s sz of
                    None \<Rightarrow> None
                  | Some (newptr, s1) \<Rightarrow>
                      if newptr = 0 then Some (0, s1)
                      else
                        let oldsize' = (if sz < oldsize then sz else oldsize);
                            s2 = s1\<lparr>mem := memcpy (mem s1) newptr oldptr oldsize'\<rparr>
                        in Some (newptr, mm_free s2 oldptr))"

text \<open>
  \<open>mm_calloc\<close> calls \<open>bzero(ptr, nmemb*size)\<close> without testing \<open>ptr\<close>.  When
  \<open>mm_malloc\<close> has returned \<open>NULL\<close> and the product is not 0, \<open>bzero\<close> stores through
  the null pointer and the call does not return: this is the outcome \<open>Null_store\<close>.
  \<open>bzero(NULL, 0)\<close> stores nothing.
\<close>

datatype fault = Null_store

definition mm_calloc :: "mm \<Rightarrow> 64 word \<Rightarrow> 64 word \<Rightarrow> (fault + addr \<times> mm) option" where
  "mm_calloc s0 nmemb sz =
     (let s = (if heap_listp s0 = 0 then snd (mm_init s0) else s0)
      in case mm_malloc s (nmemb * sz) of
           None \<Rightarrow> None
         | Some (ptr, s1) \<Rightarrow>
             if ptr = 0 \<and> nmemb * sz \<noteq> 0 then Some (Inl Null_store)
             else Some (Inr (ptr, s1\<lparr>mem := bzero (mem s1) ptr (nmemb * sz)\<rparr>)))"

text \<open>
  \<open>find_fit\<close> with \<open>BEST_FIT\<close> in \<open>mm.c\<close>: one loop over the single list; \<open>min_d\<close> is
  initialised to \<open>UINT_MAX\<close> and never assigned.  The loop is \<open>best_fit_loop\<close> below.
\<close>

partial_function (option) best_fit_loop ::
  "memory \<Rightarrow> 64 word \<Rightarrow> 32 word \<Rightarrow> addr \<Rightarrow> addr \<Rightarrow> addr option" where
  "best_fit_loop m asize min_d min_bp bp =
     (if bp = 0 then Some min_bp
      else best_fit_loop m asize min_d
             (if asize \<le> ucast (GET_SIZE m (HDRP bp)) \<and> GET_SIZE m (HDRP bp) < min_d
              then bp else min_bp)
             (NEXT m bp))"

definition find_fit_best :: "mm \<Rightarrow> 64 word \<Rightarrow> addr option" where
  "find_fit_best s asize = best_fit_loop (mem s) asize UINT_MAX 0 (rootp s)"

text \<open>
  \<open>mm_checkheap\<close> walks the blocks from \<open>heap_listp\<close> with \<open>NEXT_BLKP\<close> until it meets a
  header of size 0, and calls \<open>checkblock\<close> on each.  \<open>heap_blocks n m bp\<close> is the list
  of the blocks of this walk from \<open>bp\<close>, the one with the header of size 0 last; it is
  \<open>None\<close> when the walk has not ended after \<open>n\<close> blocks.  \<open>checkblock\<close> holds when
  neither of its two messages is printed.
\<close>

fun heap_blocks :: "nat \<Rightarrow> memory \<Rightarrow> addr \<Rightarrow> addr list option" where
  "heap_blocks 0 m bp = None"
| "heap_blocks (Suc n) m bp =
     (if GET_SIZE m (HDRP bp) > 0
      then map_option ((#) bp) (heap_blocks n m (NEXT_BLKP m bp))
      else Some [bp])"

definition checkblock :: "memory \<Rightarrow> addr \<Rightarrow> bool" where
  "checkblock m bp \<longleftrightarrow> bp mod 8 = 0 \<and> GET m (HDRP bp) = GET m (FTRP m bp)"

section \<open>\<open>mm_work.c\<close>: segregated free lists\<close>

text \<open>
  The globals of \<open>mm_work.c\<close>: \<open>heap_listp\<close>, \<open>start_root\<close> and the array
  \<open>static void *roots[SEG_SIZE]\<close> that lives inside \<open>get_root\<close>.
\<close>

record mm_work = heap +
  start_root :: addr
  roots :: "nat \<Rightarrow> addr"

definition get_segid :: "64 word \<Rightarrow> nat" where
  "get_segid asize =
     (if asize \<le> 32 then 0
      else if asize \<le> 64 then 1
      else if asize \<le> 128 then 2
      else if asize \<le> 256 then 3
      else if asize \<le> 512 then 4
      else if asize \<le> 1024 then 5
      else if asize \<le> 2048 then 6
      else 7)"

text \<open>\<open>get_root(segid, newroot)\<close> reads the root when \<open>newroot\<close> is \<open>NULL\<close> and stores it otherwise.\<close>

definition get_root :: "mm_work \<Rightarrow> nat \<Rightarrow> addr \<Rightarrow> addr \<times> mm_work" where
  "get_root s segid newroot =
     (if newroot = 0 then (roots s segid, s)
      else (0, s\<lparr>roots := (roots s)(segid := newroot)\<rparr>))"

definition root_init :: "mm_work \<Rightarrow> mm_work" where
  "root_init s = fold (\<lambda>i s'. snd (get_root s' i (start_root s' + int i * 2 * DSIZE))) [0..<SEG_SIZE] s"

definition mm_unlink_seg :: "mm_work \<Rightarrow> addr \<Rightarrow> mm_work" where
  "mm_unlink_seg s bp =
     (let sz = (ucast (GET_SIZE (mem s) (HDRP bp)) :: 64 word);
          segid = get_segid sz;
          s1 = (if PREV (mem s) bp \<noteq> 0
                then s\<lparr>mem := set_NEXT (mem s) (PREV (mem s) bp) (NEXT (mem s) bp)\<rparr>
                else snd (get_root s segid (NEXT (mem s) bp)))
      in if NEXT (mem s1) bp \<noteq> 0
         then s1\<lparr>mem := set_PREV (mem s1) (NEXT (mem s1) bp) (PREV (mem s1) bp)\<rparr>
         else s1)"

text \<open>The tail of \<open>coalesce\<close> and \<open>place\<close>: push a block on the list of class \<open>segid\<close>.\<close>

definition push_root_seg :: "mm_work \<Rightarrow> nat \<Rightarrow> addr \<Rightarrow> mm_work" where
  "push_root_seg s segid bp =
     (let m1 = set_NEXT (mem s) bp (fst (get_root s segid 0));
          m2 = set_PREV m1 bp 0;
          m3 = set_PREV m2 (fst (get_root s segid 0)) bp
      in snd (get_root (s\<lparr>mem := m3\<rparr>) segid bp))"

definition coalesce_seg :: "mm_work \<Rightarrow> addr \<Rightarrow> addr \<times> mm_work" where
  "coalesce_seg s bp =
     (let m = mem s;
          prev_alloc = GET_ALLOC m (FTRP m (PREV_BLKP m bp));
          next_alloc = GET_ALLOC m (HDRP (NEXT_BLKP m bp));
          sz = (ucast (GET_SIZE m (HDRP bp)) :: 64 word)
      in if prev_alloc \<noteq> 0 \<and> next_alloc \<noteq> 0 then
           (bp, push_root_seg s (get_segid sz) bp)
         else if prev_alloc \<noteq> 0 \<and> next_alloc = 0 then
           let next_size = (ucast (GET_SIZE m (HDRP (NEXT_BLKP m bp))) :: 64 word);
               sz' = sz + next_size;
               s1 = mm_unlink_seg s (NEXT_BLKP m bp);
               m1 = PUT (mem s1) (HDRP bp) (ucast (PACK sz' 0));
               m2 = PUT m1 (FTRP m1 bp) (ucast (PACK sz' 0))
           in (bp, push_root_seg (s1\<lparr>mem := m2\<rparr>) (get_segid sz') bp)
         else if prev_alloc = 0 \<and> next_alloc \<noteq> 0 then
           let thisHead = PREV_BLKP m bp;
               prev_size = (ucast (GET_SIZE m (HDRP (PREV_BLKP m bp))) :: 64 word);
               sz' = sz + prev_size;
               s1 = mm_unlink_seg s (PREV_BLKP m bp);
               m1 = PUT (mem s1) (FTRP (mem s1) bp) (ucast (PACK sz' 0));
               m2 = PUT m1 (HDRP (PREV_BLKP m1 bp)) (ucast (PACK sz' 0))
           in (thisHead, push_root_seg (s1\<lparr>mem := m2\<rparr>) (get_segid sz') thisHead)
         else
           let thisHead = PREV_BLKP m bp;
               prev_size = (ucast (GET_SIZE m (HDRP (PREV_BLKP m bp))) :: 64 word);
               next_size = (ucast (GET_SIZE m (FTRP m (NEXT_BLKP m bp))) :: 64 word);
               sz' = sz + (prev_size + next_size);
               s1 = mm_unlink_seg s (PREV_BLKP m bp);
               s2 = mm_unlink_seg s1 (NEXT_BLKP (mem s1) bp);
               m1 = PUT (mem s2) (HDRP (PREV_BLKP (mem s2) bp)) (ucast (PACK sz' 0));
               m2 = PUT m1 (FTRP m1 (NEXT_BLKP m1 bp)) (ucast (PACK sz' 0))
           in (thisHead, push_root_seg (s2\<lparr>mem := m2\<rparr>) (get_segid sz') thisHead))"

definition extend_heap_seg :: "mm_work \<Rightarrow> 64 word \<Rightarrow> addr \<times> mm_work" where
  "extend_heap_seg s words =
     (let sz = (if words mod 2 \<noteq> 0 then (words + 1) * WSIZE else words * WSIZE)
      in case mem_sbrk s sz of (bp, s1) \<Rightarrow>
           if bp < 0 then (0, s1)
           else
             let m1 = PUT (mem s1) (HDRP bp) (ucast (PACK sz 0));
                 m2 = PUT m1 (FTRP m1 bp) (ucast (PACK sz 0));
                 m3 = PUT m2 (HDRP (NEXT_BLKP m2 bp)) (PACK 0 1)
             in coalesce_seg (s1\<lparr>mem := m3\<rparr>) bp)"

text \<open>\<open>CHUNKSIZE\<close> is \<open>1<<12\<close> in \<open>mm_work.c\<close>.\<close>

abbreviation (input) CHUNKSIZE_seg :: "'a::numeral" where "CHUNKSIZE_seg \<equiv> 4096"

definition mm_init_seg :: "mm_work \<Rightarrow> int \<times> mm_work" where
  "mm_init_seg s0 =
     (case mem_sbrk s0 (18 * DSIZE) of (p, s1) \<Rightarrow>
        if p = - 1 then (- 1, s1\<lparr>heap_listp := p\<rparr>)
        else
          let m1 = fold (\<lambda>i m. PUT_8 m (p + DSIZE * int i) 0) [0..<16] (mem s1);
              m2 = PUT m1 (p + DSIZE * 16) 0;
              m3 = PUT m2 (p + DSIZE * 16 + WSIZE) (PACK OVERHEAD 1);
              m4 = PUT m3 (p + DSIZE * 17) (PACK OVERHEAD 1);
              m5 = PUT m4 (p + DSIZE * 17 + WSIZE) (PACK 0 1);
              s2 = root_init (s1\<lparr>mem := m5, heap_listp := p + DSIZE * 17, start_root := p\<rparr>)
          in case extend_heap_seg s2 (CHUNKSIZE_seg div WSIZE) of (bp, s3) \<Rightarrow>
               if bp = 0 then (- 1, s3) else (0, s3))"

text \<open>
  \<open>find_fit\<close> with \<open>FIRST_FIT\<close>: the classes from \<open>get_segid(asize)\<close> upwards, each list
  with the first-fit loop, returning at the first block that fits.
\<close>

fun find_fit_classes :: "mm_work \<Rightarrow> 64 word \<Rightarrow> nat list \<Rightarrow> addr option" where
  "find_fit_classes s asize [] = Some 0"
| "find_fit_classes s asize (i # ids) =
     (case find_fit_loop (mem s) asize (fst (get_root s i 0)) of
        None \<Rightarrow> None
      | Some bp \<Rightarrow> if bp \<noteq> 0 then Some bp else find_fit_classes s asize ids)"

definition find_fit_seg :: "mm_work \<Rightarrow> 64 word \<Rightarrow> addr option" where
  "find_fit_seg s asize = find_fit_classes s asize [get_segid asize..<SEG_SIZE]"

text \<open>
  \<open>find_fit\<close> with \<open>BEST_FIT\<close>: the same two loops, the inner one being \<open>best_fit_loop\<close>;
  \<open>min_d\<close> is initialised to \<open>UINT_MAX\<close> and never assigned, and the loops run to the end
  of the last class.
\<close>

fun best_fit_classes :: "mm_work \<Rightarrow> 64 word \<Rightarrow> addr \<Rightarrow> nat list \<Rightarrow> addr option" where
  "best_fit_classes s asize min_bp [] = Some min_bp"
| "best_fit_classes s asize min_bp (i # ids) =
     (case best_fit_loop (mem s) asize UINT_MAX min_bp (fst (get_root s i 0)) of
        None \<Rightarrow> None
      | Some min_bp' \<Rightarrow> best_fit_classes s asize min_bp' ids)"

definition find_fit_best_seg :: "mm_work \<Rightarrow> 64 word \<Rightarrow> addr option" where
  "find_fit_best_seg s asize = best_fit_classes s asize 0 [get_segid asize..<SEG_SIZE]"

definition place_seg :: "mm_work \<Rightarrow> addr \<Rightarrow> 64 word \<Rightarrow> mm_work" where
  "place_seg s bp asize =
     (let csize = (ucast (GET_SIZE (mem s) (HDRP bp)) :: 64 word)
      in if csize - asize \<ge> QSIZE + OVERHEAD then
           let m1 = PUT (mem s) (HDRP bp) (ucast (PACK asize 1));
               m2 = PUT m1 (FTRP m1 bp) (ucast (PACK asize 1));
               s1 = mm_unlink_seg (s\<lparr>mem := m2\<rparr>) bp;
               bp' = NEXT_BLKP (mem s1) bp;
               m3 = PUT (mem s1) (HDRP bp') (ucast (PACK (csize - asize) 0));
               m4 = PUT m3 (FTRP m3 bp') (ucast (PACK (csize - asize) 0));
               segid = get_segid asize
           in push_root_seg (s1\<lparr>mem := m4\<rparr>) segid bp'
         else
           let m1 = PUT (mem s) (HDRP bp) (ucast (PACK csize 1));
               m2 = PUT m1 (FTRP m1 bp) (ucast (PACK csize 1))
           in mm_unlink_seg (s\<lparr>mem := m2\<rparr>) bp)"

definition mm_malloc_seg :: "mm_work \<Rightarrow> 64 word \<Rightarrow> (addr \<times> mm_work) option" where
  "mm_malloc_seg s0 sz =
     (let s = (if heap_listp s0 = 0 then snd (mm_init_seg s0) else s0)
      in if sz \<le> 0 then Some (0, s)
         else
           let asize = malloc_asize sz
           in case find_fit_seg s asize of
                None \<Rightarrow> None
              | Some bp \<Rightarrow>
                  if bp \<noteq> 0 then Some (bp, place_seg s bp asize)
                  else
                    let extendsize = MAX2 asize CHUNKSIZE_seg
                    in case extend_heap_seg s (extendsize div WSIZE) of (bp', s1) \<Rightarrow>
                         if bp' = 0 then Some (0, s1)
                         else Some (bp', place_seg s1 bp' asize))"

definition mm_free_seg :: "mm_work \<Rightarrow> addr \<Rightarrow> mm_work" where
  "mm_free_seg s ptr =
     (if ptr = 0 then s
      else
        let sz = (ucast (GET_SIZE (mem s) (HDRP ptr)) :: 64 word);
            s1 = (if heap_listp s = 0 then snd (mm_init_seg s) else s);
            m1 = PUT (mem s1) (HDRP ptr) (ucast (PACK sz 0));
            m2 = PUT m1 (FTRP m1 ptr) (ucast (PACK sz 0))
        in snd (coalesce_seg (s1\<lparr>mem := m2\<rparr>) ptr))"

text \<open>
  \<open>mm_realloc\<close> of \<open>mm_work.c\<close> has no case that keeps the block: it allocates, copies
  and releases.  \<open>oldsize = GET_SIZE(HDRP(oldptr))\<close> is the size of the whole block, read
  after the allocation.
\<close>

definition mm_realloc_seg :: "mm_work \<Rightarrow> addr \<Rightarrow> 64 word \<Rightarrow> (addr \<times> mm_work) option" where
  "mm_realloc_seg s oldptr sz =
     (if sz = 0 then Some (0, mm_free_seg s oldptr)
      else if oldptr = 0 then mm_malloc_seg s sz
      else
        case mm_malloc_seg s sz of
          None \<Rightarrow> None
        | Some (newptr, s1) \<Rightarrow>
            if newptr = 0 then Some (0, s1)
            else
              let oldsize = (ucast (GET_SIZE (mem s1) (HDRP oldptr)) :: 64 word);
                  oldsize' = (if sz < oldsize then sz else oldsize);
                  s2 = s1\<lparr>mem := memcpy (mem s1) newptr oldptr oldsize'\<rparr>
              in Some (newptr, mm_free_seg s2 oldptr))"

definition mm_calloc_seg :: "mm_work \<Rightarrow> 64 word \<Rightarrow> 64 word \<Rightarrow> (fault + addr \<times> mm_work) option" where
  "mm_calloc_seg s0 nmemb sz =
     (let s = (if heap_listp s0 = 0 then snd (mm_init_seg s0) else s0)
      in case mm_malloc_seg s (nmemb * sz) of
           None \<Rightarrow> None
         | Some (ptr, s1) \<Rightarrow>
             if ptr = 0 \<and> nmemb * sz \<noteq> 0 then Some (Inl Null_store)
             else Some (Inr (ptr, s1\<lparr>mem := bzero (mem s1) ptr (nmemb * sz)\<rparr>)))"

section \<open>Initial states\<close>

text \<open>
  The allocator before its first call: every global is zero, the region is empty and
  starts at address 65536, and the provider allows 20 MB.
\<close>

definition mm0 :: mm where
  "mm0 = \<lparr>mem = (\<lambda>_. 0), mem_brk = 65536, mem_max_addr = 65536 + 20971520,
          heap_listp = 0, rootp = 0\<rparr>"

definition mm_work0 :: mm_work where
  "mm_work0 = \<lparr>mem = (\<lambda>_. 0), mem_brk = 65536, mem_max_addr = 65536 + 20971520,
               heap_listp = 0, start_root = 0, roots = (\<lambda>_. 0)\<rparr>"

text \<open>A list of 4-byte stores, applied from left to right.\<close>

definition put_all :: "memory \<Rightarrow> (addr \<times> 32 word) list \<Rightarrow> memory" where
  "put_all m ws = fold (\<lambda>(p, v) m'. PUT m' p v) ws m"

text \<open>
  Heaps of \<open>mm.c\<close> reached through the API from the initial state: \<open>a = mm_malloc(24)\<close>
  is the block at 65568, \<open>b = mm_malloc(1)\<close> the block at 65600, \<open>c = mm_malloc(1)\<close>
  the block at 65624; in \<open>heap_a_c\<close> the block \<open>b\<close> has been released again.
\<close>

definition heap_a :: mm where
  "heap_a = snd (the (mm_malloc mm0 24))"

definition heap_ab :: mm where
  "heap_ab = snd (the (mm_malloc heap_a 1))"

definition heap_abc :: mm where
  "heap_abc = snd (the (mm_malloc heap_ab 1))"

definition heap_a_c :: mm where
  "heap_a_c = mm_free heap_abc 65600"

text \<open>
  A second run of \<open>mm.c\<close> from \<open>heap_a\<close>: \<open>d = mm_malloc(24)\<close> is the block at 65600 and
  \<open>e = mm_malloc(56)\<close> the block at 65632; the program then stores four \<open>int\<close> values in
  the payloads of its blocks, 16 at \<open>d + 20\<close> and at \<open>e\<close>, 24 at \<open>e + 4\<close> and at
  \<open>e + 24\<close>, and releases \<open>d\<close>.
\<close>

definition heap_ad :: mm where
  "heap_ad = snd (the (mm_malloc heap_a 24))"

definition heap_ade :: mm where
  "heap_ade = snd (the (mm_malloc heap_ad 56))"

definition heap_ade_data :: mm where
  "heap_ade_data = heap_ade\<lparr>mem := put_all (mem heap_ade)
       [(65620, 16), (65632, 16), (65636, 24), (65656, 24)]\<rparr>"

definition heap_a_e :: mm where
  "heap_a_e = mm_free heap_ade_data 65600"

text \<open>The heap \<open>heap_ab\<close> after \<open>mm_free(a)\<close>: the free list holds the 32-byte block at 65568.\<close>

definition heap_b :: mm where
  "heap_b = mm_free heap_ab 65568"

text \<open>The heap of \<open>mm_work.c\<close> after \<open>mm_init\<close>.\<close>

definition seg_init :: mm_work where
  "seg_init = snd (mm_init_seg mm_work0)"

text \<open>
  Heaps of \<open>mm_work.c\<close> reached through the API from the initial state:
  \<open>p = mm_malloc(24)\<close> is the block at 65680, \<open>q = mm_malloc(24)\<close> the block at 65712.
\<close>

definition seg_p :: mm_work where
  "seg_p = snd (the (mm_malloc_seg mm_work0 24))"

definition seg_pq :: mm_work where
  "seg_pq = snd (the (mm_malloc_seg seg_p 24))"

section \<open>Conditions on states\<close>




text \<open>
  The node that ends every free list.  In \<open>mm_work.c\<close> it is the slot of the root table
  that \<open>root_init\<close> makes the first root of the class; in \<open>mm.c\<close> it is the 16 bytes at
  the start of the region that \<open>mm_init\<close> makes the first \<open>root\<close>, 6 words below
  \<open>heap_listp\<close>.  These nodes are not blocks: they have no header.
\<close>

definition root_slot :: "mm_work \<Rightarrow> nat \<Rightarrow> addr" where
  "root_slot s i = start_root s + int i * 2 * DSIZE"

definition root_node :: "mm \<Rightarrow> addr" where
  "root_node s = heap_listp s - WSIZE * 6"

text \<open>
  Two adjacent free blocks: the block \<open>bp\<close> and the block after it, reached by the size in
  the header of \<open>bp\<close>, both have the allocation bit clear.  \<open>no_adjacent_free m bs\<close>: this is
  so for none of the blocks \<open>bs\<close>.
\<close>

definition adjacent_free :: "memory \<Rightarrow> addr \<Rightarrow> bool" where
  "adjacent_free m bp \<longleftrightarrow>
     GET_ALLOC m (HDRP bp) = 0 \<and> GET_ALLOC m (HDRP (NEXT_BLKP m bp)) = 0"

fun no_adjacent_free :: "memory \<Rightarrow> addr list \<Rightarrow> bool" where
  "no_adjacent_free m [] \<longleftrightarrow> True"
| "no_adjacent_free m (bp # bs) \<longleftrightarrow>
     (GET_ALLOC m (HDRP bp) = 1 \<or> GET_ALLOC m (HDRP (NEXT_BLKP m bp)) = 1) \<and> no_adjacent_free m bs"

section \<open>The free lists of \<open>mm_work.c\<close> as lists of blocks\<close>

text \<open>
  \<open>dsegf nx pv prv p xs nxt\<close>: following the links \<open>nx\<close> from \<open>p\<close> visits exactly the
  blocks \<open>xs\<close>, none of them \<open>NULL\<close>, and then reaches \<open>nxt\<close>; the link \<open>pv\<close> of each
  block is the block before it, and that of the first one is \<open>prv\<close>.
\<close>

fun dsegf :: "(addr \<Rightarrow> addr) \<Rightarrow> (addr \<Rightarrow> addr) \<Rightarrow> addr \<Rightarrow> addr \<Rightarrow> addr list \<Rightarrow> addr \<Rightarrow> bool" where
  "dsegf nx pv prv p [] nxt \<longleftrightarrow> p = nxt"
| "dsegf nx pv prv p (x # xs) nxt \<longleftrightarrow>
     p = x \<and> x \<noteq> 0 \<and> pv x = prv \<and> dsegf nx pv x (nx x) xs nxt"

text \<open>
  \<open>free_lists s fl\<close>: for each of the \<open>SEG_SIZE\<close> classes, \<open>fl i\<close> is the list that starts
  at the root of class \<open>i\<close>.  The last element of each list is the slot of the root table
  that \<open>root_init\<close> made the first root of the class, so no list is empty.  The lists are
  without repetition and pairwise disjoint, their elements are addresses that a pointer
  can hold, and the 16 bytes of links of two different elements do not overlap.
\<close>

definition free_lists :: "mm_work \<Rightarrow> (nat \<Rightarrow> addr list) \<Rightarrow> bool" where
  "free_lists s fl \<longleftrightarrow>
     (\<forall>i<8. dsegf (NEXT (mem s)) (PREV (mem s)) 0 (roots s i) (fl i) 0
             \<and> fl i \<noteq> [] \<and> distinct (fl i))
   \<and> (\<forall>i<8. \<forall>j<8. i \<noteq> j \<longrightarrow> set (fl i) \<inter> set (fl j) = {})
   \<and> (\<forall>i<8. \<forall>x \<in> set (fl i). 0 < x \<and> x < 2 ^ 64
         \<and> (\<forall>j<8. \<forall>y \<in> set (fl j). x = y \<or> x + 16 \<le> y \<or> y + 16 \<le> x))"

text \<open>
  What \<open>coalesce\<close> reads of the block \<open>bp\<close> and of its neighbours: the size in the header
  of a block, the two tests on the allocation bits, and the class of a block.
\<close>

definition blk_size :: "memory \<Rightarrow> addr \<Rightarrow> int" where
  "blk_size m bp = uint (GET_SIZE m (HDRP bp))"

definition prev_free :: "memory \<Rightarrow> addr \<Rightarrow> bool" where
  "prev_free m bp \<longleftrightarrow> GET_ALLOC m (FTRP m (PREV_BLKP m bp)) = 0"

definition next_free :: "memory \<Rightarrow> addr \<Rightarrow> bool" where
  "next_free m bp \<longleftrightarrow> GET_ALLOC m (HDRP (NEXT_BLKP m bp)) = 0"

definition class_of :: "memory \<Rightarrow> addr \<Rightarrow> nat" where
  "class_of m bp = get_segid (ucast (GET_SIZE m (HDRP bp)))"

text \<open>
  What \<open>coalesce\<close> is meant to produce: the sum of the sizes of the blocks merged, the
  payload address of the merged block, and the free lists once the free neighbours have
  been taken out and the merged block has been put in front of the list of its class.
\<close>

definition merged_size :: "memory \<Rightarrow> addr \<Rightarrow> int" where
  "merged_size m bp =
     blk_size m bp + (if prev_free m bp then blk_size m (PREV_BLKP m bp) else 0)
                   + (if next_free m bp then blk_size m (NEXT_BLKP m bp) else 0)"

definition merged_head :: "memory \<Rightarrow> addr \<Rightarrow> addr" where
  "merged_head m bp = (if prev_free m bp then PREV_BLKP m bp else bp)"

definition unlinked :: "(nat \<Rightarrow> addr list) \<Rightarrow> memory \<Rightarrow> addr \<Rightarrow> nat \<Rightarrow> addr list" where
  "unlinked fl m q = fl(class_of m q := remove1 q (fl (class_of m q)))"

definition coalesce_lists :: "(nat \<Rightarrow> addr list) \<Rightarrow> memory \<Rightarrow> addr \<Rightarrow> nat \<Rightarrow> addr list" where
  "coalesce_lists fl m bp =
     (let fl1 = (if prev_free m bp then unlinked fl m (PREV_BLKP m bp) else fl);
          fl2 = (if next_free m bp then unlinked fl1 m (NEXT_BLKP m bp) else fl1);
          c = get_segid (word_of_int (merged_size m bp))
      in fl2(c := merged_head m bp # fl2 c))"

text \<open>
  The states in which \<open>coalesce\<close> is called on \<open>bp\<close>.  The free lists are well formed
  and \<open>bp\<close> is in none of them; \<open>bp\<close> is a block of at least the minimum size whose
  header and footer agree and are marked free; the footer before \<open>bp\<close> repeats the header
  of the previous block; a free neighbour has at least the minimum size and is in the list
  of its class, and a free next block has a footer that repeats its header; the sum of the
  sizes fits the 32 bits of a tag; every block of the lists other than the free neighbours
  has its links outside the merged block.
\<close>

definition coalesce_pre :: "mm_work \<Rightarrow> (nat \<Rightarrow> addr list) \<Rightarrow> addr \<Rightarrow> bool" where
  "coalesce_pre s fl bp \<longleftrightarrow>
     free_lists s fl
   \<and> 0 < bp \<and> bp < 2 ^ 64
   \<and> 24 \<le> blk_size (mem s) bp
   \<and> GET_ALLOC (mem s) (HDRP bp) = 0
   \<and> GET_SIZE (mem s) (FTRP (mem s) bp) = GET_SIZE (mem s) (HDRP bp)
   \<and> GET_ALLOC (mem s) (FTRP (mem s) bp) = 0
   \<and> GET_SIZE (mem s) (HDRP (PREV_BLKP (mem s) bp)) = GET_SIZE (mem s) (bp - DSIZE)
   \<and> (prev_free (mem s) bp \<longrightarrow>
         24 \<le> blk_size (mem s) (PREV_BLKP (mem s) bp)
       \<and> PREV_BLKP (mem s) bp \<in> set (butlast (fl (class_of (mem s) (PREV_BLKP (mem s) bp)))))
   \<and> (next_free (mem s) bp \<longrightarrow>
         24 \<le> blk_size (mem s) (NEXT_BLKP (mem s) bp)
       \<and> GET_SIZE (mem s) (FTRP (mem s) (NEXT_BLKP (mem s) bp))
           = GET_SIZE (mem s) (HDRP (NEXT_BLKP (mem s) bp))
       \<and> NEXT_BLKP (mem s) bp \<in> set (butlast (fl (class_of (mem s) (NEXT_BLKP (mem s) bp)))))
   \<and> merged_size (mem s) bp < 2 ^ 32
   \<and> (\<forall>i<8. \<forall>x \<in> set (fl i).
         (prev_free (mem s) bp \<and> x = PREV_BLKP (mem s) bp)
       \<or> (next_free (mem s) bp \<and> x = NEXT_BLKP (mem s) bp)
       \<or> x + 16 \<le> merged_head (mem s) bp - 4
       \<or> merged_head (mem s) bp + merged_size (mem s) bp - 4 \<le> x)"

text \<open>
  \<open>coalesced s' r t\<close>: in the state \<open>s'\<close> the header and the footer of the block \<open>r\<close> both
  hold the size \<open>t\<close> with the allocation bit clear, and \<open>r\<close> is the root of the class of
  \<open>t\<close>.
\<close>

definition coalesced :: "mm_work \<Rightarrow> addr \<Rightarrow> int \<Rightarrow> bool" where
  "coalesced s' r t \<longleftrightarrow>
     uint (GET_SIZE (mem s') (HDRP r)) = t \<and> GET_ALLOC (mem s') (HDRP r) = 0
   \<and> uint (GET_SIZE (mem s') (FTRP (mem s') r)) = t \<and> GET_ALLOC (mem s') (FTRP (mem s') r) = 0
   \<and> roots s' (get_segid (word_of_int t)) = r"

text \<open>
  The state in which \<open>extend_heap(1024)\<close>, called after \<open>mm_init\<close>, calls \<open>coalesce\<close>:
  the region has grown by 4096 bytes, which form the free block at 69776, and the block
  before it is the free block at 65680 of \<open>mm_init\<close>.  \<open>lists_grown\<close> are its free lists.
\<close>

definition seg_grown :: mm_work where
  "seg_grown =
     (case mem_sbrk seg_init 4096 of (bp, s1) \<Rightarrow>
        let m1 = PUT (mem s1) (HDRP bp) (ucast (PACK (4096 :: 64 word) 0));
            m2 = PUT m1 (FTRP m1 bp) (ucast (PACK (4096 :: 64 word) 0));
            m3 = PUT m2 (HDRP (NEXT_BLKP m2 bp)) (PACK 0 1)
        in s1\<lparr>mem := m3\<rparr>)"

definition lists_grown :: "nat \<Rightarrow> addr list" where
  "lists_grown i = (if i = 7 then [65680, 65648] else [65536 + 16 * int i])"

section \<open>Reading and writing memory\<close>

lemma word32_of_bytes:
  fixes v :: "32 word"
  shows "(ucast (ucast v :: 8 word) :: 32 word)
         OR push_bit 8 (ucast (ucast (drop_bit 8 v) :: 8 word))
         OR push_bit 16 (ucast (ucast (drop_bit 16 v) :: 8 word))
         OR push_bit 24 (ucast (ucast (drop_bit 24 v) :: 8 word)) = v" (is "?w = v")
proof (rule bit_word_eqI)
  fix n assume "n < LENGTH(32)"
  then consider "n < 8" | "8 \<le> n" "n < 16" | "16 \<le> n" "n < 24" | "24 \<le> n" "n < 32"
    by fastforce
  then show "bit ?w n = bit v n"
    by cases (auto simp: bit_simps)
qed

lemma word64_of_halves:
  fixes v :: "64 word"
  shows "(ucast (ucast v :: 32 word) :: 64 word)
         OR push_bit 32 (ucast (ucast (drop_bit 32 v) :: 32 word)) = v" (is "?w = v")
proof (rule bit_word_eqI)
  fix n assume "n < LENGTH(64)"
  then consider "n < 32" | "32 \<le> n" "n < 64"
    by fastforce
  then show "bit ?w n = bit v n"
    by cases (auto simp: bit_simps)
qed

lemma GET_PUT_same: "GET (PUT m p v) p = v"
  unfolding GET_def PUT_def by (simp add: word32_of_bytes)

lemma GET_PUT_other: "q + 4 \<le> p \<or> p + 4 \<le> q \<Longrightarrow> GET (PUT m p v) q = GET m q"
  unfolding GET_def PUT_def by auto

lemma GET_PUT_8_other: "q + 4 \<le> p \<or> p + 8 \<le> q \<Longrightarrow> GET (PUT_8 m p v) q = GET m q"
  unfolding PUT_8_def by (auto simp: GET_PUT_other)

lemma GET_8_PUT_other: "q + 8 \<le> p \<or> p + 4 \<le> q \<Longrightarrow> GET_8 (PUT m p v) q = GET_8 m q"
  unfolding GET_8_def by (auto simp: GET_PUT_other)

lemma GET_8_PUT_8_same: "GET_8 (PUT_8 m p v) p = v"
  unfolding GET_8_def PUT_8_def
  by (simp add: GET_PUT_same GET_PUT_other word64_of_halves)

lemma GET_8_PUT_8_other: "q + 8 \<le> p \<or> p + 8 \<le> q \<Longrightarrow> GET_8 (PUT_8 m p v) q = GET_8 m q"
  unfolding GET_8_def PUT_8_def by (auto simp: GET_PUT_other)

lemma GET_memcpy_inside:
  "dst \<le> p \<Longrightarrow> p + 4 \<le> dst + uint n \<Longrightarrow> GET (memcpy m dst src n) p = GET m (src + (p - dst))"
  by (simp add: GET_def memcpy_def algebra_simps)

lemma GET_memcpy_outside:
  "p + 4 \<le> dst \<or> dst + uint n \<le> p \<Longrightarrow> GET (memcpy m dst src n) p = GET m p"
  by (auto simp: GET_def memcpy_def)

lemma GET_bzero_inside:
  "q \<le> p \<Longrightarrow> p + 4 \<le> q + uint n \<Longrightarrow> GET (bzero m q n) p = 0"
  by (simp add: GET_def bzero_def)

lemma GET_bzero_outside:
  "p + 4 \<le> q \<or> q + uint n \<le> p \<Longrightarrow> GET (bzero m q n) p = GET m p"
  by (auto simp: GET_def bzero_def)

lemma GET_zero: "GET (\<lambda>_. 0) p = 0"
  by (simp add: GET_def)

lemma and_not7_eq:
  fixes w :: "'a::len word"
  shows "w AND NOT 7 = push_bit 3 (drop_bit 3 w)"
proof (rule bit_word_eqI)
  fix n assume n: "n < LENGTH('a)"
  have e: "(7 :: 'a word) = mask 3" by (simp add: mask_eq_exp_minus_1)
  show "bit (w AND NOT 7) n = bit (push_bit 3 (drop_bit 3 w)) n"
    unfolding e using n by (auto simp: bit_simps)
qed

lemma uint_and_not7_32:
  fixes w :: "32 word"
  shows "uint (w AND NOT 7) = 8 * (uint w div 8)"
proof -
  have "uint (push_bit 3 (drop_bit 3 w)) = take_bit 32 (8 * (uint w div 8))"
    by (simp add: push_bit_eq_mult drop_bit_eq_div uint_word_ariths uint_div take_bit_eq_mod mult.commute)
  moreover have "0 \<le> 8 * (uint w div 8)" 
    using uint_ge_0 [of w] by (simp add: pos_imp_zdiv_nonneg_iff)
  moreover have "8 * (uint w div 8) \<le> uint w" by simp
  moreover have "uint w < 2 ^ 32" using uint_lt2p [of w] by simp
  ultimately show ?thesis
    by (simp only: and_not7_eq take_bit_int_eq_self)
qed

lemma uint_and_not7_64:
  fixes w :: "64 word"
  shows "uint (w AND NOT 7) = 8 * (uint w div 8)"
proof -
  have "uint (push_bit 3 (drop_bit 3 w)) = take_bit 64 (8 * (uint w div 8))"
    by (simp add: push_bit_eq_mult drop_bit_eq_div uint_word_ariths uint_div take_bit_eq_mod mult.commute)
  moreover have "0 \<le> 8 * (uint w div 8)" 
    using uint_ge_0 [of w] by (simp add: pos_imp_zdiv_nonneg_iff)
  moreover have "8 * (uint w div 8) \<le> uint w" by simp
  moreover have "uint w < 2 ^ 64" using uint_lt2p [of w] by simp
  ultimately show ?thesis
    by (simp only: and_not7_eq take_bit_int_eq_self)
qed

lemma GET_SIZE_mod8: "uint (GET_SIZE m p) mod 8 = 0"
  unfolding GET_SIZE_def by (simp only: uint_and_not7_32) simp

lemma GET_SIZE_bounds: "0 \<le> uint (GET_SIZE m p)" "uint (GET_SIZE m p) < 4294967296"
  using uint_lt2p [of "GET_SIZE m p"] by simp_all

lemma uint_ucast_32_64: "uint (ucast (w :: 32 word) :: 64 word) = uint w"
  by (simp add: unsigned_ucast_eq take_bit_int_eq_self uint_lt2p [of w, simplified] order_less_trans [OF uint_lt2p [of w, simplified]])

lemma uint_ALIGN:
  assumes "uint sz + 7 < 2 ^ 64"
  shows "uint (ALIGN sz) = 8 * ((uint sz + 7) div 8)"
proof -
  have "uint (sz + (8 - 1)) = uint sz + 7"
    using assms by (simp add: uint_word_ariths take_bit_eq_mod)
  then show ?thesis
    unfolding ALIGN_def by (simp only: uint_and_not7_64)
qed

section \<open>The request size\<close>






section \<open>Evaluating the model on concrete heaps\<close>

lemmas eval_macros = GET_PUT_same GET_PUT_other GET_zero GET_memcpy_inside GET_memcpy_outside
  GET_bzero_inside GET_bzero_outside GET_8_def PUT_8_def
  GET_SIZE_def GET_ALLOC_def HDRP_def FTRP_def NEXT_BLKP_def PREV_BLKP_def
  NEXT_def PREV_def set_NEXT_def set_PREV_def PACK_def mem_sbrk_def ALIGN_def MAX2_def
  malloc_asize_def word_le_def word_less_def Let_def put_all_def

lemmas eval_mm = eval_macros mm_unlink_def push_root_def coalesce_def extend_heap_def
  mm_init_def find_fit_def find_fit_loop.simps place_def mm_malloc_def mm_free_def
  mm_realloc_def mm_calloc_def find_fit_best_def best_fit_loop.simps

lemma upt_8: "[0..<8] = [0, 1, 2, 3, 4, 5, 6, 7]"
  by code_simp

lemma upt_16: "[0..<16] = [0, 1, 2, 3, 4, 5, 6, 7, 8, 9, 10, 11, 12, 13, 14, 15]"
  by code_simp


lemmas eval_seg = eval_macros upt_8 upt_16 get_segid_def get_root_def root_init_def
  mm_unlink_seg_def push_root_seg_def coalesce_seg_def extend_heap_seg_def mm_init_seg_def
  find_fit_classes.simps find_fit_seg_def find_fit_loop.simps best_fit_loop.simps
  best_fit_classes.simps find_fit_best_seg_def place_seg_def mm_malloc_seg_def
  mm_free_seg_def mm_realloc_seg_def mm_calloc_seg_def

section \<open>Failure of \<open>mm_malloc\<close> leaves the state alone\<close>






section \<open>The heaps used below\<close>

lemma heap_a_eq:
  "heap_a = \<lparr>mem = put_all (\<lambda>_. 0)
       [(65536, 0), (65540, 0), (65544, 0), (65548, 0), (65552, 0), (65556, 9), (65560, 9),
        (65564, 1), (65564, 2048), (67608, 2048), (67612, 1), (65568, 65536), (65572, 0),
        (65576, 0), (65580, 0), (65544, 65568), (65548, 0), (65564, 33), (65592, 33),
        (65544, 0), (65548, 0), (65596, 2016), (67608, 2016), (65600, 65536), (65604, 0),
        (65608, 0), (65612, 0), (65544, 65600), (65548, 0)],
     mem_brk = 67616, mem_max_addr = 21037056, heap_listp = 65560, rootp = 65600\<rparr>"
  unfolding heap_a_def
  by (simp add: eval_mm mm0_def cong: let_weak_cong option.case_cong_weak prod.case_cong_weak)

lemma heap_ab_eq:
  "heap_ab = heap_a\<lparr>mem := put_all (mem heap_a)
       [(65596, 25), (65616, 25), (65544, 0), (65548, 0), (65620, 1992), (67608, 1992),
        (65624, 65536), (65628, 0), (65632, 0), (65636, 0), (65544, 65624), (65548, 0)],
     rootp := 65624\<rparr>"
  unfolding heap_ab_def heap_a_eq
  by (simp add: eval_mm cong: let_weak_cong option.case_cong_weak prod.case_cong_weak)

lemma heap_abc_eq:
  "heap_abc = heap_ab\<lparr>mem := put_all (mem heap_ab)
       [(65620, 25), (65640, 25), (65544, 0), (65548, 0), (65644, 1968), (67608, 1968),
        (65648, 65536), (65652, 0), (65656, 0), (65660, 0), (65544, 65648), (65548, 0)],
     rootp := 65648\<rparr>"
  unfolding heap_abc_def heap_ab_eq heap_a_eq
  by (simp add: eval_mm cong: let_weak_cong option.case_cong_weak prod.case_cong_weak)

lemma heap_a_c_eq:
  "heap_a_c = heap_abc\<lparr>mem := put_all (mem heap_abc)
       [(65596, 24), (65616, 24), (65600, 65648), (65604, 0), (65608, 0), (65612, 0),
        (65656, 65600), (65660, 0)],
     rootp := 65600\<rparr>"
  unfolding heap_a_c_def heap_abc_eq heap_ab_eq heap_a_eq
  by (simp add: eval_mm cong: let_weak_cong option.case_cong_weak prod.case_cong_weak)

lemmas heaps_eq = heap_a_c_eq heap_abc_eq heap_ab_eq heap_a_eq

lemma seg_init_eq:
  "seg_init = \<lparr>mem = put_all (\<lambda>_. 0)
       [(65536, 0), (65540, 0), (65544, 0), (65548, 0), (65552, 0), (65556, 0), (65560, 0),
        (65564, 0), (65568, 0), (65572, 0), (65576, 0), (65580, 0), (65584, 0), (65588, 0),
        (65592, 0), (65596, 0), (65600, 0), (65604, 0), (65608, 0), (65612, 0), (65616, 0),
        (65620, 0), (65624, 0), (65628, 0), (65632, 0), (65636, 0), (65640, 0), (65644, 0),
        (65648, 0), (65652, 0), (65656, 0), (65660, 0), (65664, 0), (65668, 9), (65672, 9),
        (65676, 1), (65676, 4096), (69768, 4096), (69772, 1), (65680, 65648), (65684, 0),
        (65688, 0), (65692, 0), (65656, 65680), (65660, 0)],
     mem_brk = 69776, mem_max_addr = 21037056, heap_listp = 65672, start_root = 65536,
     roots = (\<lambda>_. 0)(0 := 65536, 1 := 65552, 2 := 65568, 3 := 65584,
                        4 := 65600, 5 := 65616, 6 := 65632, 7 := 65680)\<rparr>"
  unfolding seg_init_def
  by (simp add: eval_seg mm_work0_def cong: let_weak_cong option.case_cong_weak prod.case_cong_weak)

lemma place_seg_init:
  "place_seg seg_init 65680 24 = seg_init\<lparr>mem := put_all (mem seg_init)
       [(65676, 25), (65696, 25), (65656, 0), (65660, 0), (65700, 4072), (69768, 4072),
        (65704, 65648), (65708, 0), (65712, 0), (65716, 0), (65656, 65704), (65660, 0)],
     roots := (roots seg_init)(0 := 65704)\<rparr>"
  unfolding seg_init_eq
  by (simp add: eval_seg cong: let_weak_cong option.case_cong_weak prod.case_cong_weak)

lemma heap_b_eq:
  "heap_b = heap_ab\<lparr>mem := put_all (mem heap_ab)
       [(65564, 32), (65592, 32), (65568, 65624), (65572, 0), (65576, 0), (65580, 0),
        (65632, 65568), (65636, 0)],
     rootp := 65568\<rparr>"
  unfolding heap_b_def heap_ab_eq heap_a_eq
  by (simp add: eval_mm cong: let_weak_cong option.case_cong_weak prod.case_cong_weak)

lemma seg_p_eq:
  "seg_p = seg_init\<lparr>mem := put_all (mem seg_init)
       [(65676, 33), (65704, 33), (65656, 0), (65660, 0), (65708, 4064), (69768, 4064),
        (65712, 65648), (65716, 0), (65720, 0), (65724, 0), (65656, 65712), (65660, 0)],
     roots := (roots seg_init)(0 := 65712)\<rparr>"
  unfolding seg_p_def seg_init_eq
  by (simp add: eval_seg mm_work0_def cong: let_weak_cong option.case_cong_weak prod.case_cong_weak)

lemma seg_pq_eq:
  "seg_pq = seg_p\<lparr>mem := put_all (mem seg_p)
       [(65708, 33), (65736, 33), (65656, 0), (65660, 0), (65740, 4032), (69768, 4032),
        (65744, 65648), (65748, 0), (65752, 0), (65756, 0), (65656, 65744), (65660, 0)],
     roots := (roots seg_p)(0 := 65744)\<rparr>"
  unfolding seg_pq_def seg_p_eq seg_init_eq
  by (simp add: eval_seg cong: let_weak_cong option.case_cong_weak prod.case_cong_weak)

lemmas segs_eq = seg_pq_eq seg_p_eq seg_init_eq

lemma malloc_seg_p_24:
  "mm_malloc_seg seg_p 24 = Some (65712, seg_pq)"
  unfolding seg_pq_eq unfolding seg_p_eq seg_init_eq
  by (simp add: eval_seg cong: let_weak_cong option.case_cong_weak prod.case_cong_weak)


lemma mm_realloc_seg_steps:
  assumes "p \<noteq> 0" and "sz \<noteq> 0" and "mm_malloc_seg s sz = Some (q, s1)" and "q \<noteq> 0"
  shows "mm_realloc_seg s p sz =
           Some (q, mm_free_seg (s1\<lparr>mem := memcpy (mem s1) q p
                    (if sz < ucast (GET_SIZE (mem s1) (HDRP p)) then sz
                     else ucast (GET_SIZE (mem s1) (HDRP p)))\<rparr>) p)"
  using assms by (simp add: mm_realloc_seg_def Let_def)

lemma realloc_a_c:
  "mm_realloc heap_a_c 65568 40 =
     Some (65568, heap_a_c\<lparr>mem := put_all (mem heap_a_c)
       [(65656, 0), (65660, 0), (65592, 0), (65564, 49), (65608, 49)], rootp := 65648\<rparr>)"
  unfolding heaps_eq
  by (simp add: eval_mm cong: let_weak_cong option.case_cong_weak prod.case_cong_weak)


section \<open>\<open>mm_realloc\<close> in \<open>mm.c\<close>\<close>

text \<open>
  Claim C8, as amended: for \<open>mm_realloc\<close> of \<open>mm.c\<close>.  For an allocated block \<open>p\<close> and
  a request \<open>sz > 0\<close> whose rounded payload \<open>max(16, align8(sz))\<close> is at most the current
  payload of \<open>p\<close> (the size in its header minus 8), \<open>mm_realloc\<close> returns \<open>p\<close> and leaves
  the whole state as it was.  The witness is \<open>resize(p, size(p))\<close> for the 24-byte payload
  of the first block of a fresh heap.
\<close>

theorem realloc_fits_returns_same:
  assumes "p \<noteq> 0" and "0 < sz"
    and "max 16 (8 * ((uint sz + 7) div 8)) \<le> uint (GET_SIZE (mem s) (HDRP p)) - 8"
  shows "mm_realloc s p sz = Some (p, s)"
proof -
  let ?G = "GET_SIZE (mem s) (HDRP p)"
  have G: "24 \<le> uint ?G" "uint ?G < 2 ^ 32"
    using assms(3) uint_lt2p [of ?G] by simp_all
  have old: "uint (ucast (?G - 8) :: 64 word) = uint ?G - 8"
    using G by (simp add: uint_ucast_32_64 uint_word_ariths take_bit_eq_mod)
  have "uint sz + 7 < 2 ^ 64"
  proof -
    have "uint sz + 7 < 8 * ((uint sz + 7) div 8) + 8" by presburger
    with assms(3) G show ?thesis by simp
  qed
  then have al: "uint (ALIGN sz) = 8 * ((uint sz + 7) div 8)"
    by (rule uint_ALIGN)
  have r: "(if sz \<le> 16 then 16 else ALIGN sz) \<le> (ucast (?G - 8) :: 64 word)"
    using assms(3) old al by (simp add: word_le_def)
  have nz: "sz \<noteq> 0" using assms(2) by auto
  show ?thesis
    unfolding mm_realloc_def using assms(1) nz r by (simp add: Let_def)
qed

theorem realloc_fits_returns_same_witness:
  "(65568 :: addr) \<noteq> 0 \<and> (0 :: 64 word) < 24
   \<and> max 16 (8 * ((uint (24 :: 64 word) + 7) div 8)) \<le> uint (GET_SIZE (mem heap_a) (HDRP 65568)) - 8
   \<and> mm_realloc heap_a 65568 24 = Some (65568, heap_a)"
  using realloc_fits_returns_same [of 65568 24 heap_a]
  by (simp add: heap_a_eq eval_macros)

text \<open>
  The claim as stated fails for \<open>mm_realloc\<close> of \<open>mm_work.c\<close>, which has no case that
  keeps the block.  After \<open>p = mm_malloc(24)\<close> on a fresh heap the block at 65680 has a
  payload of 24 bytes; \<open>mm_realloc(p, 24)\<close> returns the new block 65712 and releases
  \<open>p\<close>.
\<close>

theorem realloc_seg_moves_block:
  "GET (mem seg_p) (HDRP 65680) = PACK 32 1
   \<and> max 16 (8 * ((uint (24 :: 64 word) + 7) div 8)) \<le> uint (GET_SIZE (mem seg_p) (HDRP 65680)) - 8
   \<and> map_option fst (mm_realloc_seg seg_p 65680 24) = Some 65712
   \<and> GET (mem (snd (the (mm_realloc_seg seg_p 65680 24)))) (HDRP 65680) = PACK 32 0"
proof -
  have 1: "GET (mem seg_p) (HDRP 65680) = PACK 32 1
   \<and> max 16 (8 * ((uint (24 :: 64 word) + 7) div 8)) \<le> uint (GET_SIZE (mem seg_p) (HDRP 65680)) - 8"
    unfolding segs_eq by (simp add: eval_macros)
  have 2: "mm_realloc_seg seg_p 65680 24 =
             Some (65712, mm_free_seg (seg_pq\<lparr>mem := memcpy (mem seg_pq) 65712 65680 24\<rparr>) 65680)"
    by (subst mm_realloc_seg_steps [OF _ _ malloc_seg_p_24])
       (simp_all add: segs_eq eval_macros)
  have 3: "GET (mem (mm_free_seg (seg_pq\<lparr>mem := memcpy (mem seg_pq) 65712 65680 24\<rparr>) 65680)) (HDRP 65680)
           = PACK 32 0"
    unfolding segs_eq
    by (simp add: eval_seg cong: let_weak_cong option.case_cong_weak prod.case_cong_weak)
  show ?thesis using 1 3 by (simp add: 2)
qed




text \<open>
  Claim C3, evaluated where it fails.  In \<open>heap_a_c\<close> the block at 65568 is allocated with
  size 32 (payload 24), the block after it at 65600 is free with size 24, and the block
  after that, at 65624, is allocated.  \<open>mm_realloc\<close> with a request of 40 bytes returns
  65568, but marks it with size 48 in header and footer, although the two blocks it absorbed
  span 56 bytes: the next block by size arithmetic is 65616, not 65624.
\<close>

theorem realloc_absorb_eight_short:
  "GET (mem heap_a_c) (HDRP 65568) = PACK 32 1
   \<and> GET (mem heap_a_c) (HDRP 65600) = PACK 24 0
   \<and> GET (mem heap_a_c) (HDRP 65624) = PACK 24 1
   \<and> map_option fst (mm_realloc heap_a_c 65568 40) = Some 65568
   \<and> GET (mem (snd (the (mm_realloc heap_a_c 65568 40)))) (HDRP 65568) = PACK 48 1
   \<and> GET (mem (snd (the (mm_realloc heap_a_c 65568 40)))) (65568 + 48 - DSIZE) = PACK 48 1
   \<and> NEXT_BLKP (mem (snd (the (mm_realloc heap_a_c 65568 40)))) 65568 = 65616"
  unfolding realloc_a_c unfolding heaps_eq
  by (simp add: eval_macros)

section \<open>\<open>mm_calloc\<close>\<close>






text \<open>
  When \<open>mm_malloc\<close> returns \<open>NULL\<close> for a product that is not 0, \<open>mm_calloc\<close> stores through
  the null pointer.
\<close>

lemma calloc_null_store:
  "mm_malloc (if heap_listp s = 0 then snd (mm_init s) else s) (n * sz) = Some (0, s1)
   \<Longrightarrow> n * sz \<noteq> 0 \<Longrightarrow> mm_calloc s n sz = Some (Inl Null_store)"
  by (simp add: mm_calloc_def Let_def)

section \<open>\<open>mm_free\<close> in \<open>mm.c\<close>\<close>



section \<open>\<open>place\<close> in \<open>mm_work.c\<close>\<close>

text \<open>
  Claim C2, evaluated where it fails.  After \<open>mm_init\<close> the free block at 65680 has size
  4096 and is the head of its class 7.  The first \<open>mm_malloc(1)\<close> calls \<open>place\<close> on it
  with \<open>asize = 24\<close>.  The block is split, and the remainder at 65704 has size 4072, whose
  class is 7; but \<open>place\<close> pushes it on the list of class \<open>get_segid(asize) = 0\<close>, and
  \<open>mm_unlink\<close>, which reads the size from the header that \<open>place\<close> has already
  overwritten with \<open>asize\<close>, changes the root of class 0 too: the allocated block is
  still the head of class 7.
\<close>

theorem place_seg_wrong_class:
  "GET (mem seg_init) (HDRP 65680) = PACK 4096 0
   \<and> roots seg_init (get_segid 4096) = 65680
   \<and> PREV (mem seg_init) 65680 = 0
   \<and> mm_malloc_seg mm_work0 1 = Some (65680, place_seg seg_init 65680 24)
   \<and> GET (mem (place_seg seg_init 65680 24)) (HDRP 65680) = PACK 24 1
   \<and> GET (mem (place_seg seg_init 65680 24)) (HDRP 65704) = PACK 4072 0
   \<and> get_segid 24 = 0 \<and> get_segid 4072 = 7
   \<and> roots (place_seg seg_init 65680 24) 0 = 65704
   \<and> roots (place_seg seg_init 65680 24) 7 = 65680"
proof -
  have 1: "mm_malloc_seg mm_work0 1 = Some (65680, place_seg seg_init 65680 24)"
    unfolding place_seg_init unfolding seg_init_eq
    by (simp add: eval_seg mm_work0_def cong: let_weak_cong option.case_cong_weak prod.case_cong_weak)
  have 2: "GET (mem seg_init) (HDRP 65680) = PACK 4096 0
   \<and> roots seg_init (get_segid 4096) = 65680
   \<and> PREV (mem seg_init) 65680 = 0
   \<and> GET (mem (place_seg seg_init 65680 24)) (HDRP 65680) = PACK 24 1
   \<and> GET (mem (place_seg seg_init 65680 24)) (HDRP 65704) = PACK 4072 0
   \<and> get_segid 24 = 0 \<and> get_segid 4072 = 7
   \<and> roots (place_seg seg_init 65680 24) 0 = 65704
   \<and> roots (place_seg seg_init 65680 24) 7 = 65680"
    unfolding place_seg_init unfolding seg_init_eq
    by (simp add: eval_macros get_segid_def)
  show ?thesis using 1 2 by simp
qed

section \<open>Best fit in \<open>mm_work.c\<close>\<close>









section \<open>Doubly linked lists\<close>

lemma dsegf_cong:
  "(\<forall>x \<in> set xs. nx' x = nx x \<and> pv' x = pv x) \<Longrightarrow>
   dsegf nx' pv' prv p xs nxt = dsegf nx pv prv p xs nxt"
  by (induction xs arbitrary: prv p) auto

lemma dsegf_nonzero: "dsegf nx pv prv p xs nxt \<Longrightarrow> 0 \<notin> set xs"
  by (induction xs arbitrary: prv p) auto

lemma dsegf_head: "dsegf nx pv prv p xs nxt \<Longrightarrow> xs \<noteq> [] \<Longrightarrow> p = hd xs \<and> p \<noteq> 0 \<and> pv p = prv"
  by (cases xs) auto

lemma dsegf_unlink_head:
  assumes "dsegf nx pv prv p (q # z # zs) nxt" and "distinct (q # z # zs)"
  shows "p = q" and "pv q = prv" and "nx q = z" and "z \<noteq> 0"
    and "dsegf nx (pv(z := prv)) prv z (z # zs) nxt"
proof -
  have f: "p = q" "q \<noteq> 0" "pv q = prv" "nx q = z" "z \<noteq> 0" "pv z = q"
    "dsegf nx pv z (nx z) zs nxt" "z \<notin> set zs"
    using assms by auto
  show "p = q" "pv q = prv" "nx q = z" "z \<noteq> 0" by (rule f)+
  have "dsegf nx (pv(z := prv)) z (nx z) zs nxt = dsegf nx pv z (nx z) zs nxt"
    by (rule dsegf_cong) (use f(8) in auto)
  then have c: "dsegf nx (pv(z := prv)) z (nx z) zs nxt" using f(7) by blast
  show "dsegf nx (pv(z := prv)) prv z (z # zs) nxt"
    unfolding dsegf.simps by (intro conjI refl f(5) c) simp
qed

lemma dsegf_unlink_inner:
  assumes "dsegf nx pv prv p (ys @ q # z # zs) nxt" and "distinct (ys @ q # z # zs)"
    and "ys \<noteq> []"
  shows "pv q = last ys \<and> nx q = z \<and> z \<noteq> 0
    \<and> dsegf (nx(last ys := z)) (pv(z := last ys)) prv p (ys @ z # zs) nxt"
  using assms
proof (induction ys arbitrary: prv p)
  case Nil
  then show ?case by simp
next
  case (Cons y ys)
  then have f: "p = y" "y \<noteq> 0" "pv y = prv"
    and d: "dsegf nx pv y (nx y) (ys @ q # z # zs) nxt"
    and dist: "distinct (ys @ q # z # zs)" "y \<notin> set (ys @ q # z # zs)"
    by auto
  have yz: "y \<noteq> z" using dist(2) by auto
  show ?case
  proof (cases "ys = []")
    case True
    then have d': "dsegf nx pv y (nx y) (q # z # zs) nxt" and dist': "distinct (q # z # zs)"
      using d dist(1) by simp_all
    note h = dsegf_unlink_head [OF d' dist']
    have "dsegf (nx(y := z)) (pv(z := y)) y z (z # zs) nxt
          = dsegf nx (pv(z := y)) y z (z # zs) nxt"
      by (rule dsegf_cong) (use dist(2) in auto)
    then have c: "dsegf (nx(y := z)) (pv(z := y)) y z (z # zs) nxt" using h(5) by blast
    have "dsegf (nx(y := z)) (pv(z := y)) prv y (y # z # zs) nxt"
      unfolding dsegf.simps(2) [of _ _ prv y y]
      by (intro conjI refl f(2)) (use c yz f(3) in \<open>simp_all del: fun_upd_apply add: fun_upd_same fun_upd_other\<close>)
    then show ?thesis using True f(1) h(2,3,4) by (simp del: dsegf.simps fun_upd_apply)
  next
    case False
    note ih = Cons.IH [OF d dist(1) False]
    have yl: "y \<noteq> last ys" using False dist(2) by auto
    have "dsegf (nx(last ys := z)) (pv(z := last ys)) prv y (y # ys @ z # zs) nxt"
      unfolding dsegf.simps(2) [of _ _ prv y y]
      by (intro conjI refl f(2)) (use ih yl yz f(3) in \<open>simp_all del: fun_upd_apply add: fun_upd_same fun_upd_other\<close>)
    then show ?thesis using False f(1) ih by (simp del: dsegf.simps fun_upd_apply)
  qed
qed

lemma dsegf_push:
  assumes "dsegf nx pv 0 r xs 0" and "xs \<noteq> []" and "bp \<notin> set xs" and "bp \<noteq> 0"
    and "distinct xs"
  shows "dsegf (nx(bp := r)) (pv(bp := 0, r := bp)) 0 bp (bp # xs) 0"
proof -
  obtain x xs' where xs: "xs = x # xs'" using assms(2) by (cases xs) auto
  then have f: "r = x" "x \<noteq> 0" "dsegf nx pv x (nx x) xs' 0" "x \<noteq> bp" "bp \<notin> set xs'"
    "x \<notin> set xs'"
    using assms(1,3,5) by auto
  have "dsegf (nx(bp := x)) (pv(bp := 0, x := bp)) x (nx x) xs' 0
        = dsegf nx pv x (nx x) xs' 0"
    by (rule dsegf_cong) (use f(5,6) in auto)
  then have c: "dsegf (nx(bp := x)) (pv(bp := 0, x := bp)) x (nx x) xs' 0"
    using f(3) by blast
  have "dsegf (nx(bp := x)) (pv(bp := 0, x := bp)) bp x (x # xs') 0"
    unfolding dsegf.simps(2) [of _ _ bp x x]
    by (intro conjI refl f(2)) (use c f(4) in \<open>simp_all del: fun_upd_apply add: fun_upd_same fun_upd_other\<close>)
  then have "dsegf (nx(bp := x)) (pv(bp := 0, x := bp)) 0 bp (bp # x # xs') 0"
    unfolding dsegf.simps(2) [of _ _ 0 bp bp]
    by (intro conjI refl assms(4)) (use f(4) in \<open>simp_all del: fun_upd_apply add: fun_upd_same fun_upd_other\<close>)
  then show ?thesis using xs f(1) by (simp del: dsegf.simps fun_upd_apply)
qed

section \<open>Well-formed free lists\<close>

lemma uint_word_of_int_64: "0 \<le> v \<Longrightarrow> v < 2 ^ 64 \<Longrightarrow> uint (word_of_int v :: 64 word) = v"
  by (simp add: uint_word_of_int take_bit_int_eq_self)

lemma NEXT_set_NEXT_same: "0 \<le> v \<Longrightarrow> v < 2 ^ 64 \<Longrightarrow> NEXT (set_NEXT m a v) a = v"
  by (simp add: NEXT_def set_NEXT_def GET_8_PUT_8_same uint_word_of_int_64)

lemma PREV_set_PREV_same: "0 \<le> v \<Longrightarrow> v < 2 ^ 64 \<Longrightarrow> PREV (set_PREV m a v) a = v"
  by (simp add: PREV_def set_PREV_def GET_8_PUT_8_same uint_word_of_int_64)

lemma NEXT_set_NEXT_other: "x + 8 \<le> a \<or> a + 8 \<le> x \<Longrightarrow> NEXT (set_NEXT m a v) x = NEXT m x"
  unfolding NEXT_def set_NEXT_def by (subst GET_8_PUT_8_other) auto

lemma NEXT_set_PREV: "x \<le> a \<or> a + 16 \<le> x \<Longrightarrow> NEXT (set_PREV m a v) x = NEXT m x"
  unfolding NEXT_def set_PREV_def by (subst GET_8_PUT_8_other) auto

lemma PREV_set_NEXT: "a \<le> x \<or> x + 16 \<le> a \<Longrightarrow> PREV (set_NEXT m a v) x = PREV m x"
  unfolding PREV_def set_NEXT_def by (subst GET_8_PUT_8_other) auto

lemma PREV_set_PREV_other: "x + 8 \<le> a \<or> a + 8 \<le> x \<Longrightarrow> PREV (set_PREV m a v) x = PREV m x"
  unfolding PREV_def set_PREV_def by (subst GET_8_PUT_8_other) auto

lemma GET_set_NEXT: "c + 4 \<le> a \<or> a + 8 \<le> c \<Longrightarrow> GET (set_NEXT m a v) c = GET m c"
  unfolding set_NEXT_def by (subst GET_PUT_8_other) auto

lemma GET_set_PREV: "c + 4 \<le> a + 8 \<or> a + 16 \<le> c \<Longrightarrow> GET (set_PREV m a v) c = GET m c"
  unfolding set_PREV_def by (subst GET_PUT_8_other) auto

lemma in_butlast_split:
  assumes "q \<in> set (butlast xs)"
  shows "\<exists>ys z zs. xs = ys @ q # z # zs"
proof -
  from assms have ne: "xs \<noteq> []" by auto
  from assms obtain ys ws where b: "butlast xs = ys @ q # ws"
    by (auto dest: split_list)
  have "xs = butlast xs @ [last xs]" using ne by simp
  then have "xs = ys @ q # (ws @ [last xs])" using b by simp
  moreover obtain z zs where "ws @ [last xs] = z # zs" by (cases "ws @ [last xs]") auto
  ultimately show ?thesis by metis
qed

lemma free_lists_node:
  assumes "free_lists s fl" and "i < 8" and "x \<in> set (fl i)"
  shows "0 < x" and "x < 2 ^ 64"
  using assms unfolding free_lists_def by blast+

lemma free_lists_sep:
  assumes "free_lists s fl" and "i < 8" and "x \<in> set (fl i)" and "j < 8" and "y \<in> set (fl j)"
  shows "x = y \<or> x + 16 \<le> y \<or> y + 16 \<le> x"
  using assms unfolding free_lists_def by blast

lemma free_lists_disj:
  assumes "free_lists s fl" and "i < 8" and "x \<in> set (fl i)" and "j < 8" and "x \<in> set (fl j)"
  shows "i = j"
  using assms unfolding free_lists_def by blast

lemma free_lists_dseg:
  assumes "free_lists s fl" and "i < 8"
  shows "dsegf (NEXT (mem s)) (PREV (mem s)) 0 (roots s i) (fl i) 0" and "fl i \<noteq> []"
    and "distinct (fl i)"
  using assms unfolding free_lists_def by blast+

text \<open>The state after \<open>mm_unlink\<close>, for a head and for an inner node.\<close>

lemma mm_unlink_seg_head:
  assumes "PREV (mem s) q = 0" and "NEXT (mem s) q = z" and "z \<noteq> 0"
  shows "mm_unlink_seg s q
         = s\<lparr>roots := (roots s)(get_segid (ucast (GET_SIZE (mem s) (HDRP q))) := z),
             mem := set_PREV (mem s) z 0\<rparr>"
  using assms by (simp add: mm_unlink_seg_def get_root_def Let_def)

lemma mm_unlink_seg_inner:
  assumes "PREV (mem s) q = y" and "NEXT (mem s) q = z" and "z \<noteq> 0" and "y \<noteq> 0"
    and "q + 16 \<le> y \<or> y + 16 \<le> q"
  shows "mm_unlink_seg s q = s\<lparr>mem := set_PREV (set_NEXT (mem s) y z) z y\<rparr>"
proof -
  have "NEXT (set_NEXT (mem s) y z) q = z"
    using assms(2,5) by (subst NEXT_set_NEXT_other) auto
  moreover have "PREV (set_NEXT (mem s) y z) q = y"
    using assms(1,5) by (subst PREV_set_NEXT) auto
  ultimately show ?thesis
    using assms(1-4) by (simp add: mm_unlink_seg_def Let_def)
qed

section \<open>\<open>mm_unlink\<close> in \<open>mm_work.c\<close> takes a block out of its list\<close>

lemma free_lists_update:
  assumes fl: "free_lists s fl" and c: "c < 8"
    and new: "dsegf nx' pv' 0 r xs' 0" "xs' \<noteq> []" "distinct xs'"
    and fields: "\<forall>x \<in> set xs'. NEXT (mem s') x = nx' x \<and> PREV (mem s') x = pv' x"
    and other: "\<forall>i<8. i \<noteq> c \<longrightarrow>
                  (\<forall>x \<in> set (fl i). NEXT (mem s') x = NEXT (mem s) x \<and> PREV (mem s') x = PREV (mem s) x)"
    and disj: "\<forall>i<8. i \<noteq> c \<longrightarrow> set xs' \<inter> set (fl i) = {}"
    and nodes: "\<forall>x \<in> set xs'. 0 < x \<and> x < 2 ^ 64
                  \<and> (\<forall>y \<in> set xs'. x = y \<or> x + 16 \<le> y \<or> y + 16 \<le> x)
                  \<and> (\<forall>j<8. j \<noteq> c \<longrightarrow> (\<forall>y \<in> set (fl j). x = y \<or> x + 16 \<le> y \<or> y + 16 \<le> x))"
    and roots': "roots s' = (roots s)(c := r)"
  shows "free_lists s' (fl(c := xs'))"
proof -
  let ?fl = "fl(c := xs')"
  have 1: "dsegf (NEXT (mem s')) (PREV (mem s')) 0 (roots s' i) (?fl i) 0
           \<and> ?fl i \<noteq> [] \<and> distinct (?fl i)" if i: "i < 8" for i
  proof (cases "i = c")
    case True
    have "dsegf (NEXT (mem s')) (PREV (mem s')) 0 r xs' 0 = dsegf nx' pv' 0 r xs' 0"
      by (rule dsegf_cong) (use fields in blast)
    then show ?thesis using True new roots' by simp
  next
    case False
    have "dsegf (NEXT (mem s')) (PREV (mem s')) 0 (roots s i) (fl i) 0
          = dsegf (NEXT (mem s)) (PREV (mem s)) 0 (roots s i) (fl i) 0"
      by (rule dsegf_cong) (use other i False in blast)
    then show ?thesis using False roots' free_lists_dseg [OF fl i] by simp
  qed
  have 2: "set (?fl i) \<inter> set (?fl j) = {}" if "i < 8" "j < 8" "i \<noteq> j" for i j
  proof -
    have "set (fl i) \<inter> set (fl j) = {}"
      using fl that unfolding free_lists_def by blast
    then show ?thesis using that disj by (auto simp: fun_upd_def)
  qed
  have 3: "0 < x \<and> x < 2 ^ 64 \<and> (\<forall>j<8. \<forall>y \<in> set (?fl j). x = y \<or> x + 16 \<le> y \<or> y + 16 \<le> x)"
    if i: "i < 8" and x: "x \<in> set (?fl i)" for i x
  proof (cases "i = c")
    case True
    then have x': "x \<in> set xs'" using x by simp
    show ?thesis
    proof (intro conjI allI impI ballI)
      show "0 < x" "x < 2 ^ 64" using nodes x' by blast+
      fix j y assume j: "j < 8" and y: "y \<in> set (?fl j)"
      show "x = y \<or> x + 16 \<le> y \<or> y + 16 \<le> x"
      proof (cases "j = c")
        case True
        then show ?thesis using nodes x' y by simp
      next
        case False
        then show ?thesis using nodes x' y j by simp
      qed
    qed
  next
    case False
    then have x': "x \<in> set (fl i)" using x by simp
    show ?thesis
    proof (intro conjI allI impI ballI)
      show "0 < x" "x < 2 ^ 64" using free_lists_node [OF fl i x'] by blast+
      fix j y assume j: "j < 8" and y: "y \<in> set (?fl j)"
      show "x = y \<or> x + 16 \<le> y \<or> y + 16 \<le> x"
      proof (cases "j = c")
        case True
        then have "y \<in> set xs'" using y by simp
        then have "y = x \<or> y + 16 \<le> x \<or> x + 16 \<le> y"
          using nodes i False x' by blast
        then show ?thesis by auto
      next
        case False
        then show ?thesis using free_lists_sep [OF fl i x' j] y by simp
      qed
    qed
  qed
  show ?thesis
    unfolding free_lists_def using 1 2 3 by blast
qed

lemma mm_unlink_seg_lists:
  assumes fl: "free_lists s fl" and c: "c < 8" and q: "q \<in> set (butlast (fl c))"
    and cls: "get_segid (ucast (GET_SIZE (mem s) (HDRP q))) = c"
  shows "free_lists (mm_unlink_seg s q) (fl(c := remove1 q (fl c)))"
    and "\<forall>a. (\<forall>i<8. \<forall>x \<in> set (fl i). a + 4 \<le> x \<or> x + 16 \<le> a)
           \<longrightarrow> GET (mem (mm_unlink_seg s q)) a = GET (mem s) a"
proof -
  obtain ys z zs where xs: "fl c = ys @ q # z # zs"
    using in_butlast_split [OF q] by blast
  note d = free_lists_dseg [OF fl c]
  let ?m = "mem s"
  let ?nx = "NEXT ?m"
  let ?pv = "PREV ?m"
  let ?xs' = "ys @ z # zs"
  have dist: "distinct (ys @ q # z # zs)" using d(3) xs by simp
  have dl: "dsegf ?nx ?pv 0 (roots s c) (ys @ q # z # zs) 0" using d(1) xs by simp
  have rm: "remove1 q (fl c) = ?xs'" using xs dist by (simp add: remove1_append)
  have sub: "set ?xs' \<subseteq> set (fl c)" using xs by auto
  have zc: "z \<in> set (fl c)" and qc: "q \<in> set (fl c)" using xs by auto
  have dist': "distinct ?xs'" using dist by auto
  have disj: "\<forall>i<8. i \<noteq> c \<longrightarrow> set ?xs' \<inter> set (fl i) = {}"
    using free_lists_disj [OF fl c] sub by blast
  have nodes: "\<forall>x \<in> set ?xs'. 0 < x \<and> x < 2 ^ 64
                  \<and> (\<forall>y \<in> set ?xs'. x = y \<or> x + 16 \<le> y \<or> y + 16 \<le> x)
                  \<and> (\<forall>j<8. j \<noteq> c \<longrightarrow> (\<forall>y \<in> set (fl j). x = y \<or> x + 16 \<le> y \<or> y + 16 \<le> x))"
    using free_lists_node [OF fl c] free_lists_sep [OF fl c] sub c
    by (meson subsetD)
  have sepz: "x = z \<or> x + 16 \<le> z \<or> z + 16 \<le> x" if "i < 8" "x \<in> set (fl i)" for i x
    using free_lists_sep [OF fl that c zc] .
  have zrep: "0 < z" "z < 2 ^ 64" using free_lists_node [OF fl c zc] by blast+
  have main: "free_lists (mm_unlink_seg s q) (fl(c := remove1 q (fl c)))
    \<and> (\<forall>a. (\<forall>i<8. \<forall>x \<in> set (fl i). a + 4 \<le> x \<or> x + 16 \<le> a)
           \<longrightarrow> GET (mem (mm_unlink_seg s q)) a = GET (mem s) a)"
  proof (cases "ys = []")
    case True
    have dl': "dsegf ?nx ?pv 0 (roots s c) (q # z # zs) 0" and dq: "distinct (q # z # zs)"
      using dl dist True by simp_all
    note h = dsegf_unlink_head [OF dl' dq]
    let ?m2 = "set_PREV ?m z 0"
    let ?s' = "s\<lparr>roots := (roots s)(c := z), mem := ?m2\<rparr>"
    have st: "mm_unlink_seg s q = ?s'"
      using mm_unlink_seg_head [OF h(2) h(3) h(4)] cls by simp
    have nx: "NEXT ?m2 x = ?nx x" if "i < 8" "x \<in> set (fl i)" for i x
      using sepz [OF that] by (subst NEXT_set_PREV) auto
    have pv: "PREV ?m2 x = (?pv(z := 0)) x" if "i < 8" "x \<in> set (fl i)" for i x
    proof (cases "x = z")
      case True
      then show ?thesis by (simp add: PREV_set_PREV_same)
    next
      case False
      then have "PREV ?m2 x = ?pv x"
        using sepz [OF that] by (subst PREV_set_PREV_other) auto
      then show ?thesis using False by simp
    qed
    have fields: "\<forall>x \<in> set ?xs'. NEXT (mem ?s') x = ?nx x \<and> PREV (mem ?s') x = (?pv(z := 0)) x"
      using nx [OF c] pv [OF c] sub by auto
    have other: "\<forall>i<8. i \<noteq> c \<longrightarrow>
                  (\<forall>x \<in> set (fl i). NEXT (mem ?s') x = ?nx x \<and> PREV (mem ?s') x = ?pv x)"
    proof (intro allI impI ballI)
      fix i x assume i: "i < 8" "i \<noteq> c" and x: "x \<in> set (fl i)"
      have "x \<noteq> z" using free_lists_disj [OF fl i(1) x c] zc i(2) by blast
      then show "NEXT (mem ?s') x = ?nx x \<and> PREV (mem ?s') x = ?pv x"
        using nx [OF i(1) x] pv [OF i(1) x] by simp
    qed
    have new: "dsegf ?nx (?pv(z := 0)) 0 z ?xs' 0" using h(5) True by simp
    have "free_lists ?s' (fl(c := ?xs'))"
      by (rule free_lists_update [OF fl c new _ dist' fields other disj nodes]) simp_all
    then have A: "free_lists (mm_unlink_seg s q) (fl(c := remove1 q (fl c)))"
      using st rm by simp
    have B: "\<forall>a. (\<forall>i<8. \<forall>x \<in> set (fl i). a + 4 \<le> x \<or> x + 16 \<le> a)
           \<longrightarrow> GET (mem (mm_unlink_seg s q)) a = GET (mem s) a"
    proof (intro allI impI)
      fix a assume "\<forall>i<8. \<forall>x \<in> set (fl i). a + 4 \<le> x \<or> x + 16 \<le> a"
      then have "a + 4 \<le> z \<or> z + 16 \<le> a" using c zc by blast
      then show "GET (mem (mm_unlink_seg s q)) a = GET (mem s) a"
        unfolding st by (simp, subst GET_set_PREV) auto
    qed
    show ?thesis using A B by blast
  next
    case False
    define y where "y = last ys"
    have yc: "y \<in> set (fl c)" using False xs by (auto simp: y_def)
    note h = dsegf_unlink_inner [OF dl dist False, folded y_def]
    have yrep: "0 < y" "y < 2 ^ 64" using free_lists_node [OF fl c yc] by blast+
    have yq: "y \<noteq> q" and yz: "y \<noteq> z" using dist False by (auto simp: y_def)
    have sepy: "x = y \<or> x + 16 \<le> y \<or> y + 16 \<le> x" if "i < 8" "x \<in> set (fl i)" for i x
      using free_lists_sep [OF fl that c yc] .
    have qy: "q + 16 \<le> y \<or> y + 16 \<le> q" using sepy [OF c qc] yq by auto
    let ?m2 = "set_PREV (set_NEXT ?m y z) z y"
    let ?s' = "s\<lparr>mem := ?m2\<rparr>"
    have st: "mm_unlink_seg s q = ?s'"
      using h yrep(1) by (intro mm_unlink_seg_inner [OF _ _ _ _ qy]) auto
    have nx: "NEXT ?m2 x = (?nx(y := z)) x" if "i < 8" "x \<in> set (fl i)" for i x
    proof -
      have "NEXT ?m2 x = NEXT (set_NEXT ?m y z) x"
        using sepz [OF that] by (subst NEXT_set_PREV) auto
      also have "\<dots> = (?nx(y := z)) x"
      proof (cases "x = y")
        case True
        then show ?thesis using zrep by (simp add: NEXT_set_NEXT_same)
      next
        case False
        then have "NEXT (set_NEXT ?m y z) x = ?nx x"
          using sepy [OF that] by (subst NEXT_set_NEXT_other) auto
        then show ?thesis using False by simp
      qed
      finally show ?thesis .
    qed
    have pv: "PREV ?m2 x = (?pv(z := y)) x" if "i < 8" "x \<in> set (fl i)" for i x
    proof (cases "x = z")
      case True
      then show ?thesis using yrep by (simp add: PREV_set_PREV_same)
    next
      case False
      then have "PREV ?m2 x = PREV (set_NEXT ?m y z) x"
        using sepz [OF that] by (subst PREV_set_PREV_other) auto
      also have "\<dots> = ?pv x"
        using sepy [OF that] by (subst PREV_set_NEXT) auto
      finally show ?thesis using False by simp
    qed
    have fields: "\<forall>x \<in> set ?xs'. NEXT (mem ?s') x = (?nx(y := z)) x
                    \<and> PREV (mem ?s') x = (?pv(z := y)) x"
      using nx [OF c] pv [OF c] sub by auto
    have other: "\<forall>i<8. i \<noteq> c \<longrightarrow>
                  (\<forall>x \<in> set (fl i). NEXT (mem ?s') x = ?nx x \<and> PREV (mem ?s') x = ?pv x)"
    proof (intro allI impI ballI)
      fix i x assume i: "i < 8" "i \<noteq> c" and x: "x \<in> set (fl i)"
      have "x \<noteq> z" "x \<noteq> y"
        using free_lists_disj [OF fl i(1) x c] zc yc i(2) by blast+
      then show "NEXT (mem ?s') x = ?nx x \<and> PREV (mem ?s') x = ?pv x"
        using nx [OF i(1) x] pv [OF i(1) x] by simp
    qed
    have new: "dsegf (?nx(y := z)) (?pv(z := y)) 0 (roots s c) ?xs' 0" using h by simp
    have "free_lists ?s' (fl(c := ?xs'))"
      by (rule free_lists_update [OF fl c new _ dist' fields other disj nodes]) simp_all
    then have A: "free_lists (mm_unlink_seg s q) (fl(c := remove1 q (fl c)))"
      using st rm by simp
    have B: "\<forall>a. (\<forall>i<8. \<forall>x \<in> set (fl i). a + 4 \<le> x \<or> x + 16 \<le> a)
           \<longrightarrow> GET (mem (mm_unlink_seg s q)) a = GET (mem s) a"
    proof (intro allI impI)
      fix a assume "\<forall>i<8. \<forall>x \<in> set (fl i). a + 4 \<le> x \<or> x + 16 \<le> a"
      then have az: "a + 4 \<le> z \<or> z + 16 \<le> a" and ay: "a + 4 \<le> y \<or> y + 16 \<le> a"
        using c zc yc by blast+
      have "GET ?m2 a = GET (set_NEXT ?m y z) a"
        using az by (subst GET_set_PREV) auto
      moreover have "GET (set_NEXT ?m y z) a = GET ?m a"
        using ay by (subst GET_set_NEXT) auto
      ultimately show "GET (mem (mm_unlink_seg s q)) a = GET (mem s) a"
        unfolding st by simp
    qed
    show ?thesis using A B by blast
  qed
  show "free_lists (mm_unlink_seg s q) (fl(c := remove1 q (fl c)))"
    and "\<forall>a. (\<forall>i<8. \<forall>x \<in> set (fl i). a + 4 \<le> x \<or> x + 16 \<le> a)
           \<longrightarrow> GET (mem (mm_unlink_seg s q)) a = GET (mem s) a"
    using main by blast+
qed

section \<open>Pushing a block on the list of a class\<close>

lemma NEXT_PUT_other: "x + 8 \<le> a \<or> a + 4 \<le> x \<Longrightarrow> NEXT (PUT m a v) x = NEXT m x"
  unfolding NEXT_def by (subst GET_8_PUT_other) auto

lemma PREV_PUT_other: "x + 16 \<le> a \<or> a + 4 \<le> x + 8 \<Longrightarrow> PREV (PUT m a v) x = PREV m x"
  unfolding PREV_def by (subst GET_8_PUT_other) auto

lemma free_lists_mem:
  assumes fl: "free_lists s fl"
    and "\<forall>i<8. \<forall>x \<in> set (fl i). NEXT m' x = NEXT (mem s) x \<and> PREV m' x = PREV (mem s) x"
  shows "free_lists (s\<lparr>mem := m'\<rparr>) fl"
proof -
  have "dsegf (NEXT m') (PREV m') 0 (roots s i) (fl i) 0
        = dsegf (NEXT (mem s)) (PREV (mem s)) 0 (roots s i) (fl i) 0" if "i < 8" for i
    by (rule dsegf_cong) (use assms(2) that in blast)
  then show ?thesis
    using fl unfolding free_lists_def by simp
qed

lemma free_lists_PUT:
  assumes fl: "free_lists s fl"
    and "\<forall>i<8. \<forall>x \<in> set (fl i). x + 16 \<le> a \<or> a + 4 \<le> x"
  shows "free_lists (s\<lparr>mem := PUT (mem s) a v\<rparr>) fl"
proof (rule free_lists_mem [OF fl], intro allI impI ballI)
  fix i x assume "i < 8" "x \<in> set (fl i)"
  then have "x + 16 \<le> a \<or> a + 4 \<le> x" using assms(2) by blast
  then show "NEXT (PUT (mem s) a v) x = NEXT (mem s) x \<and> PREV (PUT (mem s) a v) x = PREV (mem s) x"
    by (auto simp: NEXT_PUT_other PREV_PUT_other)
qed

lemma push_root_seg_lists:
  assumes fl: "free_lists s fl" and c: "c < 8" and bp: "0 < bp" "bp < 2 ^ 64"
    and far: "\<forall>i<8. \<forall>x \<in> set (fl i). bp + 16 \<le> x \<or> x + 16 \<le> bp"
  shows "free_lists (push_root_seg s c bp) (fl(c := bp # fl c))"
    and "roots (push_root_seg s c bp) c = bp"
    and "\<forall>a. (a + 4 \<le> bp \<or> bp + 16 \<le> a) \<and> (\<forall>i<8. \<forall>x \<in> set (fl i). a + 4 \<le> x \<or> x + 16 \<le> a)
           \<longrightarrow> GET (mem (push_root_seg s c bp)) a = GET (mem s) a"
proof -
  note d = free_lists_dseg [OF fl c]
  let ?m = "mem s"
  let ?nx = "NEXT ?m"
  let ?pv = "PREV ?m"
  define r where "r = roots s c"
  have rh: "r = hd (fl c)" "r \<noteq> 0" using dsegf_head [OF d(1) d(2)] by (simp_all add: r_def)
  have rc: "r \<in> set (fl c)" using rh d(2) by simp
  have rrep: "0 < r" "r < 2 ^ 64" using free_lists_node [OF fl c rc] by blast+
  have rbp: "bp + 16 \<le> r \<or> r + 16 \<le> bp" using far c rc by blast
  have bpn: "bp \<notin> set (fl i)" if "i < 8" for i using far that by fastforce
  let ?m1 = "set_NEXT ?m bp r"
  let ?m2 = "set_PREV ?m1 bp 0"
  let ?m3 = "set_PREV ?m2 r bp"
  let ?s' = "s\<lparr>mem := ?m3, roots := (roots s)(c := bp)\<rparr>"
  have st: "push_root_seg s c bp = ?s'"
    using bp(1) by (simp add: push_root_seg_def get_root_def Let_def r_def)
  have sepr: "x = r \<or> x + 16 \<le> r \<or> r + 16 \<le> x" if "i < 8" "x \<in> set (fl i)" for i x
    using free_lists_sep [OF fl that c rc] .
  have sepb: "bp + 16 \<le> x \<or> x + 16 \<le> bp" if "i < 8" "x \<in> set (fl i)" for i x
    using far that by blast
  have nxn: "NEXT ?m3 x = ?nx x" if "i < 8" "x \<in> set (fl i)" for i x
  proof -
    have "NEXT ?m3 x = NEXT ?m2 x" using sepr [OF that] by (subst NEXT_set_PREV) auto
    also have "\<dots> = NEXT ?m1 x" using sepb [OF that] by (subst NEXT_set_PREV) auto
    also have "\<dots> = ?nx x" using sepb [OF that] by (subst NEXT_set_NEXT_other) auto
    finally show ?thesis .
  qed
  have pvn: "PREV ?m3 x = (?pv(r := bp)) x" if "i < 8" "x \<in> set (fl i)" for i x
  proof (cases "x = r")
    case True
    then show ?thesis using bp by (simp add: PREV_set_PREV_same)
  next
    case False
    then have "PREV ?m3 x = PREV ?m2 x" using sepr [OF that] by (subst PREV_set_PREV_other) auto
    also have "\<dots> = PREV ?m1 x" using sepb [OF that] by (subst PREV_set_PREV_other) auto
    also have "\<dots> = ?pv x" using sepb [OF that] by (subst PREV_set_NEXT) auto
    finally show ?thesis using False by simp
  qed
  have nxb: "NEXT ?m3 bp = r"
  proof -
    have "NEXT ?m3 bp = NEXT ?m2 bp" using rbp by (subst NEXT_set_PREV) auto
    also have "\<dots> = NEXT ?m1 bp" by (subst NEXT_set_PREV) auto
    also have "\<dots> = r" using rrep by (simp add: NEXT_set_NEXT_same)
    finally show ?thesis .
  qed
  have pvb: "PREV ?m3 bp = 0"
  proof -
    have "PREV ?m3 bp = PREV ?m2 bp" using rbp by (subst PREV_set_PREV_other) auto
    also have "\<dots> = 0" by (simp add: PREV_set_PREV_same)
    finally show ?thesis .
  qed
  have rb: "r \<noteq> bp" using rbp by auto
  let ?nx' = "?nx(bp := r)"
  let ?pv' = "?pv(bp := 0, r := bp)"
  have new: "dsegf ?nx' ?pv' 0 bp (bp # fl c) 0"
    using dsegf_push [OF d(1) [folded r_def] d(2) bpn [OF c] _ d(3)] bp(1) by simp
  have fields: "\<forall>x \<in> set (bp # fl c). NEXT (mem ?s') x = ?nx' x \<and> PREV (mem ?s') x = ?pv' x"
  proof
    fix x assume "x \<in> set (bp # fl c)"
    then consider "x = bp" | "x \<in> set (fl c)" "x \<noteq> bp" by auto
    then show "NEXT (mem ?s') x = ?nx' x \<and> PREV (mem ?s') x = ?pv' x"
    proof cases
      case 1
      then show ?thesis using nxb pvb rb by simp
    next
      case 2
      then show ?thesis using nxn [OF c 2(1)] pvn [OF c 2(1)] by simp
    qed
  qed
  have other: "\<forall>i<8. i \<noteq> c \<longrightarrow>
                  (\<forall>x \<in> set (fl i). NEXT (mem ?s') x = ?nx x \<and> PREV (mem ?s') x = ?pv x)"
  proof (intro allI impI ballI)
    fix i x assume i: "i < 8" "i \<noteq> c" and x: "x \<in> set (fl i)"
    have "x \<noteq> r" using free_lists_disj [OF fl i(1) x c] rc i(2) by blast
    then show "NEXT (mem ?s') x = ?nx x \<and> PREV (mem ?s') x = ?pv x"
      using nxn [OF i(1) x] pvn [OF i(1) x] by simp
  qed
  have disj: "\<forall>i<8. i \<noteq> c \<longrightarrow> set (bp # fl c) \<inter> set (fl i) = {}"
    using free_lists_disj [OF fl c] bpn by auto
  have nodes: "\<forall>x \<in> set (bp # fl c). 0 < x \<and> x < 2 ^ 64
                  \<and> (\<forall>y \<in> set (bp # fl c). x = y \<or> x + 16 \<le> y \<or> y + 16 \<le> x)
                  \<and> (\<forall>j<8. j \<noteq> c \<longrightarrow> (\<forall>y \<in> set (fl j). x = y \<or> x + 16 \<le> y \<or> y + 16 \<le> x))"
  proof
    fix x assume "x \<in> set (bp # fl c)"
    then consider "x = bp" | "x \<in> set (fl c)" by auto
    then show "0 < x \<and> x < 2 ^ 64
                  \<and> (\<forall>y \<in> set (bp # fl c). x = y \<or> x + 16 \<le> y \<or> y + 16 \<le> x)
                  \<and> (\<forall>j<8. j \<noteq> c \<longrightarrow> (\<forall>y \<in> set (fl j). x = y \<or> x + 16 \<le> y \<or> y + 16 \<le> x))"
    proof cases
      case 1
      then show ?thesis using bp far c by auto
    next
      case 2
      have "0 < x" "x < 2 ^ 64" using free_lists_node [OF fl c 2] by blast+
      moreover have "\<forall>j<8. \<forall>y \<in> set (fl j). x = y \<or> x + 16 \<le> y \<or> y + 16 \<le> x"
        using free_lists_sep [OF fl c 2] by blast
      moreover have "x = bp \<or> x + 16 \<le> bp \<or> bp + 16 \<le> x" using sepb [OF c 2] by auto
      ultimately show ?thesis using c by auto
    qed
  qed
  have "free_lists ?s' (fl(c := bp # fl c))"
    by (rule free_lists_update [OF fl c new _ _ fields other disj nodes])
       (use d(3) bpn [OF c] in simp_all)
  then show "free_lists (push_root_seg s c bp) (fl(c := bp # fl c))" using st by simp
  show "roots (push_root_seg s c bp) c = bp" using st by simp
  show "\<forall>a. (a + 4 \<le> bp \<or> bp + 16 \<le> a) \<and> (\<forall>i<8. \<forall>x \<in> set (fl i). a + 4 \<le> x \<or> x + 16 \<le> a)
           \<longrightarrow> GET (mem (push_root_seg s c bp)) a = GET (mem s) a"
  proof (intro allI impI)
    fix a assume a: "(a + 4 \<le> bp \<or> bp + 16 \<le> a) \<and> (\<forall>i<8. \<forall>x \<in> set (fl i). a + 4 \<le> x \<or> x + 16 \<le> a)"
    then have ar: "a + 4 \<le> r \<or> r + 16 \<le> a" using c rc by blast
    have "GET ?m3 a = GET ?m2 a" using ar by (subst GET_set_PREV) auto
    also have "\<dots> = GET ?m1 a" using a by (subst GET_set_PREV) auto
    also have "\<dots> = GET ?m a" using a by (subst GET_set_NEXT) auto
    finally show "GET (mem (push_root_seg s c bp)) a = GET (mem s) a" unfolding st by simp
  qed
qed

section \<open>\<open>coalesce\<close> in \<open>mm_work.c\<close>\<close>

lemma get_segid_less: "get_segid a < 8"
  by (simp add: get_segid_def)

lemma class_of_less: "class_of m q < 8"
  by (simp add: class_of_def get_segid_less)

lemma blk_size_mod8: "blk_size m bp mod 8 = 0"
  by (simp add: blk_size_def GET_SIZE_mod8)

lemma blk_size_bounds: "0 \<le> blk_size m bp" "blk_size m bp < 4294967296"
  by (simp_all add: blk_size_def GET_SIZE_bounds)

lemma even_uint_and1:
  fixes v :: "32 word"
  assumes "even (uint v)"
  shows "v AND 1 = 0"
proof (rule bit_word_eqI)
  fix n assume "n < LENGTH(32)"
  have "\<not> bit (uint v) 0" using assms by (simp only: bit_0 not_not)
  then have "\<not> bit v 0" by (simp add: bit_uint_iff)
  then show "bit (v AND 1) n = bit (0 :: 32 word) n"
    by (cases "n = 0") (auto simp: bit_and_iff bit_1_iff)
qed

text \<open>The tag written for a size \<open>t\<close> that fits in 32 bits and is a multiple of 8.\<close>

lemma tag_word:
  fixes w :: "64 word"
  assumes "uint w = t" and "t < 2 ^ 32" and "t mod 8 = 0"
  shows "uint ((ucast (PACK w 0) :: 32 word) AND NOT 7) = t"
    and "(ucast (PACK w 0) :: 32 word) AND 1 = 0"
proof -
  let ?v = "ucast (PACK w 0) :: 32 word"
  have t0: "0 \<le> t" using assms(1) by auto
  have pk: "PACK w 0 = w" by (simp add: PACK_def)
  have "uint (ucast w :: 32 word) = take_bit 32 (uint w)"
    by (simp add: unsigned_ucast_eq)
  also have "\<dots> = t"
    using assms(1,2) t0 by (simp only: take_bit_int_eq_self)
  finally have uv: "uint ?v = t" by (simp only: pk)
  have "8 * (t div 8) = t" using assms(3) by presburger
  then show "uint (?v AND NOT 7) = t"
    by (simp only: uint_and_not7_32 uv)
  have "even t" using assms(3) by presburger
  then have "even (uint ?v)" using uv by simp
  then show "?v AND 1 = 0" by (rule even_uint_and1)
qed

lemma remove1_butlast:
  assumes "distinct xs" and "q \<in> set (butlast xs)" and "x \<in> set (butlast xs)" and "x \<noteq> q"
  shows "x \<in> set (butlast (remove1 q xs))"
proof -
  have ne: "xs \<noteq> []" using assms(2) by auto
  then have xs: "xs = butlast xs @ [last xs]" by simp
  have "remove1 q xs = remove1 q (butlast xs @ [last xs])" using xs by simp
  also have "\<dots> = remove1 q (butlast xs) @ [last xs]"
    using assms(2) by (simp add: remove1_append)
  finally have "butlast (remove1 q xs) = remove1 q (butlast xs)" by simp
  then show ?thesis using assms(3,4) by simp
qed

lemma unlinked_nodes:
  assumes "free_lists s fl" and "q \<in> set (fl (class_of m q))" and "i < 8"
    and "x \<in> set (unlinked fl m q i)"
  shows "x \<in> set (fl i)" and "x \<noteq> q"
proof -
  have d: "distinct (fl (class_of m q))"
    using free_lists_dseg(3) [OF assms(1) class_of_less] .
  show "x \<in> set (fl i)"
    using assms(4) d by (cases "i = class_of m q") (auto simp: unlinked_def)
  show "x \<noteq> q"
  proof (cases "i = class_of m q")
    case True
    then show ?thesis using assms(4) d by (auto simp: unlinked_def)
  next
    case False
    then have "x \<in> set (fl i)" using assms(4) by (simp add: unlinked_def)
    then show ?thesis
      using free_lists_disj [OF assms(1) assms(3) _ class_of_less, of x m q] assms(2) False
      by blast
  qed
qed

lemma coalesce_finish:
  assumes fl: "free_lists s2 fl2" and c: "c < 8" and r: "0 < r" "r < 2 ^ 64" and t: "24 \<le> t"
    and out: "\<forall>i<8. \<forall>x \<in> set (fl2 i). x + 16 \<le> r - 4 \<or> r + t - 4 \<le> x"
    and hd: "uint (GET_SIZE (mem s2) (r - 4)) = t" "GET_ALLOC (mem s2) (r - 4) = 0"
    and ft: "uint (GET_SIZE (mem s2) (r + t - 8)) = t" "GET_ALLOC (mem s2) (r + t - 8) = 0"
  shows "uint (GET_SIZE (mem (push_root_seg s2 c r)) (HDRP r)) = t
       \<and> GET_ALLOC (mem (push_root_seg s2 c r)) (HDRP r) = 0
       \<and> FTRP (mem (push_root_seg s2 c r)) r = r + t - 8
       \<and> uint (GET_SIZE (mem (push_root_seg s2 c r)) (r + t - 8)) = t
       \<and> GET_ALLOC (mem (push_root_seg s2 c r)) (r + t - 8) = 0
       \<and> roots (push_root_seg s2 c r) c = r
       \<and> free_lists (push_root_seg s2 c r) (fl2(c := r # fl2 c))"
proof -
  let ?s' = "push_root_seg s2 c r"
  have far: "\<forall>i<8. \<forall>x \<in> set (fl2 i). r + 16 \<le> x \<or> x + 16 \<le> r"
    using out t by fastforce
  note p = push_root_seg_lists [OF fl c r far]
  have "(r - 4 + 4 \<le> r \<or> r + 16 \<le> r - 4)
        \<and> (\<forall>i<8. \<forall>x \<in> set (fl2 i). r - 4 + 4 \<le> x \<or> x + 16 \<le> r - 4)"
    using out t by fastforce
  then have g1: "GET (mem ?s') (r - 4) = GET (mem s2) (r - 4)"
    using p(3) by blast
  have "(r + t - 8 + 4 \<le> r \<or> r + 16 \<le> r + t - 8)
        \<and> (\<forall>i<8. \<forall>x \<in> set (fl2 i). r + t - 8 + 4 \<le> x \<or> x + 16 \<le> r + t - 8)"
    using out t by fastforce
  then have g2: "GET (mem ?s') (r + t - 8) = GET (mem s2) (r + t - 8)"
    using p(3) by blast
  have h1: "uint (GET_SIZE (mem ?s') (r - 4)) = t" "GET_ALLOC (mem ?s') (r - 4) = 0"
    using hd g1 by (simp_all add: GET_SIZE_def GET_ALLOC_def)
  have h2: "uint (GET_SIZE (mem ?s') (r + t - 8)) = t" "GET_ALLOC (mem ?s') (r + t - 8) = 0"
    using ft g2 by (simp_all add: GET_SIZE_def GET_ALLOC_def)
  have f: "FTRP (mem ?s') r = r + t - 8"
    using h1(1) by (simp add: FTRP_def HDRP_def)
  show ?thesis
    using h1 h2 f p(1,2) by (simp add: HDRP_def)
qed

lemma coalesced_finish:
  assumes "free_lists s2 fl2" and "0 < r" "r < 2 ^ 64" and "24 \<le> t"
    and "\<forall>i<8. \<forall>x \<in> set (fl2 i). x + 16 \<le> r - 4 \<or> r + t - 4 \<le> x"
    and "uint (GET_SIZE (mem s2) (r - 4)) = t" "GET_ALLOC (mem s2) (r - 4) = 0"
    and "uint (GET_SIZE (mem s2) (r + t - 8)) = t" "GET_ALLOC (mem s2) (r + t - 8) = 0"
    and "w = word_of_int t"
  shows "coalesced (push_root_seg s2 (get_segid w) r) r t
       \<and> free_lists (push_root_seg s2 (get_segid w) r)
            (fl2(get_segid (word_of_int t) := r # fl2 (get_segid (word_of_int t))))"
  using coalesce_finish [OF assms(1) get_segid_less assms(2-9), of w] assms(10)
  by (simp add: coalesced_def)

lemma tags_after_PUTs:
  assumes "h + 4 \<le> f"
  shows "GET (PUT (PUT m h v) f v) h = v" and "GET (PUT (PUT m h v) f v) f = v"
    and "GET (PUT (PUT m f v) h v) h = v" and "GET (PUT (PUT m f v) h v) f = v"
proof -
  show "GET (PUT (PUT m h v) f v) h = v"
    using assms by (subst GET_PUT_other) (auto simp: GET_PUT_same)
  show "GET (PUT (PUT m h v) f v) f = v" by (rule GET_PUT_same)
  show "GET (PUT (PUT m f v) h v) h = v" by (rule GET_PUT_same)
  show "GET (PUT (PUT m f v) h v) f = v"
    using assms by (subst GET_PUT_other) (auto simp: GET_PUT_same)
qed

lemma free_lists_PUT2:
  assumes "free_lists s fl"
    and "\<forall>i<8. \<forall>x \<in> set (fl i). x + 16 \<le> a \<or> a + 4 \<le> x"
    and "\<forall>i<8. \<forall>x \<in> set (fl i). x + 16 \<le> b \<or> b + 4 \<le> x"
  shows "free_lists (s\<lparr>mem := PUT (PUT (mem s) a v) b w\<rparr>) fl"
proof -
  have "free_lists ((s\<lparr>mem := PUT (mem s) a v\<rparr>)\<lparr>mem := PUT (mem (s\<lparr>mem := PUT (mem s) a v\<rparr>)) b w\<rparr>) fl"
    by (rule free_lists_PUT [OF free_lists_PUT [OF assms(1,2)]]) (use assms(3) in simp)
  then show ?thesis by simp
qed

lemma uint_ucast_size: "uint (ucast (GET_SIZE m a) :: 64 word) = uint (GET_SIZE m a)"
  by (rule uint_ucast_32_64)

lemma word_of_sum2:
  fixes a b :: "64 word"
  assumes "uint a = x" "uint b = y"
  shows "a + b = word_of_int (x + y)"
  using assms by (metis word_of_int_uint wi_hom_add)

text \<open>
  Claim C1, for \<open>coalesce\<close> of \<open>mm_work.c\<close>.  In a state that satisfies \<open>coalesce_pre\<close>,
  \<open>coalesce(bp)\<close> returns \<open>bp\<close> when the previous block is allocated and the previous
  block when it is free (\<open>merged_head\<close>); the header and the footer of the returned block
  both hold, with the allocation bit clear, the sum of the sizes of \<open>bp\<close> and of its free
  neighbours (\<open>merged_size\<close>); the returned block is the root of the class of that sum, and
  the free lists are those of before without the free neighbours and with the returned
  block in front of the list of its class.
\<close>

theorem coalesce_seg_spec:
  assumes pre: "coalesce_pre s fl bp"
  shows "fst (coalesce_seg s bp) = merged_head (mem s) bp
       \<and> coalesced (snd (coalesce_seg s bp)) (merged_head (mem s) bp) (merged_size (mem s) bp)
       \<and> free_lists (snd (coalesce_seg s bp)) (coalesce_lists fl (mem s) bp)"
proof -
  define m where "m = mem s"
  define sz where "sz = blk_size m bp"
  define P where "P = PREV_BLKP m bp"
  define N where "N = NEXT_BLKP m bp"
  define psz where "psz = blk_size m P"
  define nsz where "nsz = blk_size m N"
  define r where "r = merged_head m bp"
  define t where "t = merged_size m bp"
  note defs = m_def [symmetric] sz_def [symmetric] P_def [symmetric] N_def [symmetric]
    psz_def [symmetric] nsz_def [symmetric]
  from pre have F: "free_lists s fl" and bp: "0 < bp" "bp < 2 ^ 64" and S24: "24 \<le> sz"
    and Ha: "GET_ALLOC m (HDRP bp) = 0"
    and Fs: "GET_SIZE m (FTRP m bp) = GET_SIZE m (HDRP bp)"
    and Fa: "GET_ALLOC m (FTRP m bp) = 0"
    and hp: "GET_SIZE m (HDRP P) = GET_SIZE m (bp - 8)"
    and PF: "prev_free m bp \<Longrightarrow> 24 \<le> psz \<and> P \<in> set (butlast (fl (class_of m P)))"
    and NF: "next_free m bp \<Longrightarrow> 24 \<le> nsz \<and> GET_SIZE m (FTRP m N) = GET_SIZE m (HDRP N)
                \<and> N \<in> set (butlast (fl (class_of m N)))"
    and T32: "t < 2 ^ 32"
    and SEP: "\<forall>i<8. \<forall>x \<in> set (fl i). (prev_free m bp \<and> x = P) \<or> (next_free m bp \<and> x = N)
                \<or> x + 16 \<le> r - 4 \<or> r + t - 4 \<le> x"
    unfolding coalesce_pre_def m_def sz_def P_def N_def psz_def nsz_def r_def t_def
    by blast+
  have szu: "sz = uint (GET_SIZE m (bp - 4))" by (simp add: sz_def blk_size_def HDRP_def)
  have Nb: "N = bp + sz" by (simp add: N_def NEXT_BLKP_def szu)
  have pszu: "psz = uint (GET_SIZE m (bp - 8))" using hp by (simp add: psz_def blk_size_def)
  have Pb: "P = bp - psz" by (simp add: P_def PREV_BLKP_def pszu)
  have nszu: "nsz = uint (GET_SIZE m (N - 4))" by (simp add: nsz_def blk_size_def HDRP_def)
  have fP: "FTRP m P = bp - 8"
    using hp by (simp add: FTRP_def Pb pszu)
  have fB: "FTRP m bp = bp + sz - 8" by (simp add: FTRP_def HDRP_def szu)
  have pa: "(GET_ALLOC m (FTRP m (PREV_BLKP m bp)) = 0) = prev_free m bp"
    by (simp add: prev_free_def)
  have na: "(GET_ALLOC m (HDRP (NEXT_BLKP m bp)) = 0) = next_free m bp"
    by (simp add: next_free_def)
  have m8: "sz mod 8 = 0" "psz mod 8 = 0" "nsz mod 8 = 0"
    by (simp_all add: sz_def psz_def nsz_def blk_size_mod8)
  have nn: "0 \<le> sz" "0 \<le> psz" "0 \<le> nsz"
    by (simp_all add: sz_def psz_def nsz_def blk_size_bounds)
  define szw where "szw = (ucast (GET_SIZE m (HDRP bp)) :: 64 word)"
  have szw: "uint szw = sz" by (simp add: szw_def uint_ucast_32_64 sz_def blk_size_def)
  show ?thesis
  proof (cases "prev_free m bp")
    case pf: False
    show ?thesis
    proof (cases "next_free m bp")
      case nf: False
      have rt: "r = bp" "t = sz"
        using pf nf by (simp_all add: r_def t_def merged_head_def merged_size_def sz_def)
      have cl: "coalesce_lists fl m bp
                = fl(get_segid (word_of_int t) := r # fl (get_segid (word_of_int t)))"
        using pf nf by (simp add: coalesce_lists_def Let_def r_def t_def)
      have eq: "coalesce_seg s bp = (bp, push_root_seg s (get_segid szw) bp)"
        using pf nf pa na unfolding coalesce_seg_def szw_def m_def by (simp add: Let_def)
      have out: "\<forall>i<8. \<forall>x \<in> set (fl i). x + 16 \<le> r - 4 \<or> r + t - 4 \<le> x"
        using SEP pf nf by blast
      have w: "szw = word_of_int t" using szw rt by (metis word_of_int_uint)
      have hd: "uint (GET_SIZE (mem s) (r - 4)) = t" "GET_ALLOC (mem s) (r - 4) = 0"
        using Ha szu rt by (simp_all add: m_def HDRP_def)
      have ft: "uint (GET_SIZE (mem s) (r + t - 8)) = t" "GET_ALLOC (mem s) (r + t - 8) = 0"
        using Fs Fa fB szu rt by (simp_all add: m_def HDRP_def)
      note fin = coalesced_finish [OF F _ _ _ out hd ft w]
      show ?thesis
        using fin bp S24 rt eq cl by (simp add: r_def t_def m_def)
    next
      case nf: True
      note nfacts = NF [OF nf]
      have rt: "r = bp" "t = sz + nsz"
        using pf nf by (simp_all add: r_def t_def merged_head_def merged_size_def defs)
      define nw where "nw = (ucast (GET_SIZE m (HDRP N)) :: 64 word)"
      have nw: "uint nw = nsz" by (simp add: nw_def uint_ucast_32_64 nsz_def blk_size_def)
      define w where "w = szw + nw"
      have w: "w = word_of_int t" unfolding w_def rt by (rule word_of_sum2 [OF szw nw])
      have uw: "uint w = t"
        unfolding w by (rule uint_word_of_int_64) (use T32 nn rt in simp_all)
      define v where "v = (ucast (PACK w 0) :: 32 word)"
      have t8: "t mod 8 = 0" using m8 rt by presburger
      note tg = tag_word [OF uw T32 t8, folded v_def]
      define s1 where "s1 = mm_unlink_seg s N"
      define fl1 where "fl1 = unlinked fl m N"
      define m2 where "m2 = PUT (PUT (mem s1) (bp - 4) v) (bp + t - 8) v"
      have Nin: "N \<in> set (fl (class_of m N))" using nfacts by (auto dest: in_set_butlastD)
      have ul: "free_lists s1 fl1"
        unfolding s1_def fl1_def unlinked_def
        by (rule mm_unlink_seg_lists(1) [OF F class_of_less])
           (use nfacts in \<open>simp_all add: class_of_def m_def\<close>)
      have f1: "FTRP (PUT (mem s1) (bp - 4) v) bp = bp + t - 8"
        using tg(1) by (simp add: FTRP_def HDRP_def GET_SIZE_def GET_PUT_same)
      have eq: "coalesce_seg s bp = (bp, push_root_seg (s1\<lparr>mem := m2\<rparr>) (get_segid w) bp)"
        using pf nf pa na f1
        unfolding coalesce_seg_def m_def s1_def m2_def w_def szw_def nw_def v_def N_def
        by (simp add: Let_def HDRP_def)
      have out: "\<forall>i<8. \<forall>x \<in> set (fl1 i). x + 16 \<le> r - 4 \<or> r + t - 4 \<le> x"
      proof (intro allI impI ballI)
        fix i x assume i: "i < 8" and x: "x \<in> set (fl1 i)"
        note u = unlinked_nodes [OF F Nin i x [unfolded fl1_def]]
        then show "x + 16 \<le> r - 4 \<or> r + t - 4 \<le> x" using SEP i pf by blast
      qed
      have t24: "24 \<le> t" using rt S24 nn by simp
      have F2: "free_lists (s1\<lparr>mem := m2\<rparr>) fl1"
        unfolding m2_def
        by (rule free_lists_PUT2 [OF ul]) (use out rt t24 in fastforce)+
      have hd: "uint (GET_SIZE (mem (s1\<lparr>mem := m2\<rparr>)) (r - 4)) = t"
        "GET_ALLOC (mem (s1\<lparr>mem := m2\<rparr>)) (r - 4) = 0"
        using tg t24 tags_after_PUTs(1) [of "bp - 4" "bp + t - 8" "mem s1" v]
        by (simp_all add: m2_def rt GET_SIZE_def GET_ALLOC_def)
      have ft: "uint (GET_SIZE (mem (s1\<lparr>mem := m2\<rparr>)) (r + t - 8)) = t"
        "GET_ALLOC (mem (s1\<lparr>mem := m2\<rparr>)) (r + t - 8) = 0"
        using tg by (simp_all add: m2_def rt(1) GET_SIZE_def GET_ALLOC_def GET_PUT_same)
      have cl: "coalesce_lists fl m bp
                = fl1(get_segid (word_of_int t) := r # fl1 (get_segid (word_of_int t)))"
        using pf nf by (simp add: coalesce_lists_def Let_def r_def t_def fl1_def N_def)
      note fin = coalesced_finish [OF F2 _ _ t24 out hd ft w]
      show ?thesis
        using fin bp rt(1) eq cl by (simp add: r_def t_def m_def)
    qed
  next
    case pf: True
    note pfacts = PF [OF pf]
    have Pin: "P \<in> set (fl (class_of m P))" using pfacts by (auto dest: in_set_butlastD)
    have Prep: "0 < P" "P < 2 ^ 64" using free_lists_node [OF F class_of_less Pin] by blast+
    define pw where "pw = (ucast (GET_SIZE m (HDRP P)) :: 64 word)"
    have pw: "uint pw = psz" by (simp add: pw_def uint_ucast_32_64 psz_def blk_size_def)
    define s1 where "s1 = mm_unlink_seg s P"
    define fl1 where "fl1 = unlinked fl m P"
    have q1: "P \<in> set (butlast (fl (class_of m P)))" using pfacts by simp
    have cls1: "get_segid (ucast (GET_SIZE (mem s) (HDRP P))) = class_of m P"
      by (simp add: class_of_def m_def)
    note U1 = mm_unlink_seg_lists [OF F class_of_less q1 cls1, folded s1_def]
    have ul: "free_lists s1 fl1"
      using U1(1) by (simp add: fl1_def unlinked_def)
    have fr1: "GET (mem s1) a = GET m a"
      if "\<forall>i<8. \<forall>x \<in> set (fl i). a + 4 \<le> x \<or> x + 16 \<le> a" for a
      using U1(2) that by (simp add: m_def)
    show ?thesis
    proof (cases "next_free m bp")
      case nf: False
      have rt: "r = P" "t = sz + psz"
        using pf nf by (simp_all add: r_def t_def merged_head_def merged_size_def defs)
      define w where "w = szw + pw"
      have w: "w = word_of_int t" unfolding w_def rt by (rule word_of_sum2 [OF szw pw])
      have uw: "uint w = t"
        unfolding w by (rule uint_word_of_int_64) (use T32 nn rt in simp_all)
      define v where "v = (ucast (PACK w 0) :: 32 word)"
      have t8: "t mod 8 = 0" using m8 rt by presburger
      note tg = tag_word [OF uw T32 t8, folded v_def]
      have t24: "24 \<le> t" using rt S24 nn by simp
      have cell: "\<forall>i<8. \<forall>x \<in> set (fl i). a + 4 \<le> x \<or> x + 16 \<le> a"
        if "a = bp - 8 \<or> a = bp - 4" for a
      proof (intro allI impI ballI)
        fix i x assume "i < 8" "x \<in> set (fl i)"
        then have "x = P \<or> x + 16 \<le> r - 4 \<or> r + t - 4 \<le> x" using SEP nf by blast
        then show "a + 4 \<le> x \<or> x + 16 \<le> a"
          using that rt Pb pfacts S24 by auto
      qed
      have g4: "GET (mem s1) (bp - 4) = GET m (bp - 4)" by (rule fr1 [OF cell]) simp
      have g8: "GET (mem s1) (bp - 8) = GET m (bp - 8)" by (rule fr1 [OF cell]) simp
      have te: "bp + sz - 8 = P + t - 8" using rt Pb by simp
      have e1: "FTRP (mem s1) bp = P + t - 8"
        using g4 te by (simp add: FTRP_def HDRP_def GET_SIZE_def szu)
      have "GET (PUT (mem s1) (P + t - 8) v) (bp - 8) = GET (mem s1) (bp - 8)"
        using te S24 by (subst GET_PUT_other) auto
      then have e2: "PREV_BLKP (PUT (mem s1) (P + t - 8) v) bp = P"
        using g8 by (simp add: PREV_BLKP_def GET_SIZE_def Pb pszu)
      define m2 where "m2 = PUT (PUT (mem s1) (P + t - 8) v) (P - 4) v"
      have eq: "coalesce_seg s bp = (P, push_root_seg (s1\<lparr>mem := m2\<rparr>) (get_segid w) P)"
        using pf nf pa na e1 e2
        unfolding coalesce_seg_def m_def s1_def m2_def w_def szw_def pw_def v_def P_def
        by (simp add: Let_def HDRP_def)
      have out: "\<forall>i<8. \<forall>x \<in> set (fl1 i). x + 16 \<le> r - 4 \<or> r + t - 4 \<le> x"
      proof (intro allI impI ballI)
        fix i x assume i: "i < 8" and x: "x \<in> set (fl1 i)"
        note u = unlinked_nodes [OF F Pin i x [unfolded fl1_def]]
        then show "x + 16 \<le> r - 4 \<or> r + t - 4 \<le> x" using SEP i nf by blast
      qed
      have F2: "free_lists (s1\<lparr>mem := m2\<rparr>) fl1"
        unfolding m2_def
        by (rule free_lists_PUT2 [OF ul]) (use out rt t24 in fastforce)+
      have hd: "uint (GET_SIZE (mem (s1\<lparr>mem := m2\<rparr>)) (r - 4)) = t"
        "GET_ALLOC (mem (s1\<lparr>mem := m2\<rparr>)) (r - 4) = 0"
        using tg by (simp_all add: m2_def rt(1) GET_SIZE_def GET_ALLOC_def GET_PUT_same)
      have ft: "uint (GET_SIZE (mem (s1\<lparr>mem := m2\<rparr>)) (r + t - 8)) = t"
        "GET_ALLOC (mem (s1\<lparr>mem := m2\<rparr>)) (r + t - 8) = 0"
        using tg t24 tags_after_PUTs(4) [of "P - 4" "P + t - 8" "mem s1" v]
        by (simp_all add: m2_def rt(1) GET_SIZE_def GET_ALLOC_def)
      have cl: "coalesce_lists fl m bp
                = fl1(get_segid (word_of_int t) := r # fl1 (get_segid (word_of_int t)))"
        using pf nf by (simp add: coalesce_lists_def Let_def r_def t_def fl1_def P_def)
      note fin = coalesced_finish [OF F2 _ _ t24 out hd ft w]
      show ?thesis
        using fin Prep rt(1) eq cl by (simp add: r_def t_def m_def)
    next
      case nf: True
      note nfacts = NF [OF nf]
      have rt: "r = P" "t = sz + psz + nsz"
        using pf nf by (simp_all add: r_def t_def merged_head_def merged_size_def defs)
      define nw where "nw = (ucast (GET_SIZE m (HDRP N)) :: 64 word)"
      have nw: "uint nw = nsz" by (simp add: nw_def uint_ucast_32_64 nsz_def blk_size_def)
      have nw': "(ucast (GET_SIZE m (FTRP m N)) :: 64 word) = nw"
        using nfacts by (simp add: nw_def)
      define w where "w = szw + (pw + nw)"
      have "pw + nw = word_of_int (psz + nsz)" by (rule word_of_sum2 [OF pw nw])
      moreover have "uint (word_of_int (psz + nsz) :: 64 word) = psz + nsz"
        by (rule uint_word_of_int_64) (use T32 nn rt in simp_all)
      ultimately have "w = word_of_int (sz + (psz + nsz))"
        unfolding w_def using word_of_sum2 [OF szw, of "pw + nw" "psz + nsz"] by simp
      then have w: "w = word_of_int t" using rt by (simp add: add.assoc)
      have uw: "uint w = t"
        unfolding w by (rule uint_word_of_int_64) (use T32 nn rt in simp_all)
      define v where "v = (ucast (PACK w 0) :: 32 word)"
      have t8: "t mod 8 = 0" using m8 rt by presburger
      note tg = tag_word [OF uw T32 t8, folded v_def]
      have t24: "24 \<le> t" using rt S24 nn by simp
      have cell: "\<forall>i<8. \<forall>x \<in> set (fl i). a + 4 \<le> x \<or> x + 16 \<le> a"
        if "a = bp - 8 \<or> a = bp - 4 \<or> a = N - 4" for a
      proof (intro allI impI ballI)
        fix i x assume "i < 8" "x \<in> set (fl i)"
        then have "x = P \<or> x = N \<or> x + 16 \<le> r - 4 \<or> r + t - 4 \<le> x" using SEP by blast
        then show "a + 4 \<le> x \<or> x + 16 \<le> a"
          using that rt Pb Nb pfacts nfacts S24 by auto
      qed
      have g4: "GET (mem s1) (bp - 4) = GET m (bp - 4)" by (rule fr1 [OF cell]) simp
      have gN: "GET (mem s1) (N - 4) = GET m (N - 4)" by (rule fr1 [OF cell]) simp
      have e1: "NEXT_BLKP (mem s1) bp = N"
        using g4 by (simp add: NEXT_BLKP_def GET_SIZE_def Nb szu)
      have c1: "class_of (mem s1) N = class_of m N"
        using gN by (simp add: class_of_def GET_SIZE_def HDRP_def)
      have NP: "N \<noteq> P" using Nb Pb S24 pfacts by simp
      have Nin: "N \<in> set (fl (class_of m N))" using nfacts by (auto dest: in_set_butlastD)
      have Nb1: "N \<in> set (butlast (fl1 (class_of m N)))"
      proof (cases "class_of m N = class_of m P")
        case True
        have "N \<in> set (butlast (remove1 P (fl (class_of m P))))"
          by (rule remove1_butlast [OF free_lists_dseg(3) [OF F class_of_less]])
             (use pfacts nfacts True NP in simp_all)
        then show ?thesis using True by (simp add: fl1_def unlinked_def)
      next
        case False
        then show ?thesis using nfacts by (simp add: fl1_def unlinked_def)
      qed
      define s2 where "s2 = mm_unlink_seg s1 N"
      define fl2 where "fl2 = unlinked fl1 m N"
      have cls2: "get_segid (ucast (GET_SIZE (mem s1) (HDRP N))) = class_of m N"
        using c1 by (simp add: class_of_def)
      note U2 = mm_unlink_seg_lists [OF ul class_of_less Nb1 cls2, folded s2_def]
      have ul2: "free_lists s2 fl2"
        using U2(1) by (simp add: fl2_def unlinked_def)
      have fr2: "GET (mem s2) a = GET (mem s1) a"
        if "\<forall>i<8. \<forall>x \<in> set (fl1 i). a + 4 \<le> x \<or> x + 16 \<le> a" for a
        using U2(2) that by simp
      have cell1: "\<forall>i<8. \<forall>x \<in> set (fl1 i). a + 4 \<le> x \<or> x + 16 \<le> a"
        if "a = bp - 8 \<or> a = bp - 4 \<or> a = N - 4" for a
        using cell [OF that] unlinked_nodes(1) [OF F Pin] unfolding fl1_def by blast
      have h4: "GET (mem s2) (bp - 4) = GET m (bp - 4)"
        using fr2 [OF cell1, of "bp - 4"] fr1 [OF cell, of "bp - 4"] by simp
      have h8: "GET (mem s2) (bp - 8) = GET m (bp - 8)"
        using fr2 [OF cell1, of "bp - 8"] fr1 [OF cell, of "bp - 8"] by simp
      have hN: "GET (mem s2) (N - 4) = GET m (N - 4)"
        using fr2 [OF cell1, of "N - 4"] fr1 [OF cell, of "N - 4"] by simp
      have e2: "PREV_BLKP (mem s2) bp = P"
        using h8 by (simp add: PREV_BLKP_def GET_SIZE_def Pb pszu)
      have "GET (PUT (mem s2) (P - 4) v) (bp - 4) = GET (mem s2) (bp - 4)"
        using Pb pfacts by (subst GET_PUT_other) auto
      then have e3: "NEXT_BLKP (PUT (mem s2) (P - 4) v) bp = N"
        using h4 by (simp add: NEXT_BLKP_def GET_SIZE_def Nb szu)
      have te: "N + nsz - 8 = P + t - 8" using rt Pb Nb by simp
      have "GET (PUT (mem s2) (P - 4) v) (N - 4) = GET (mem s2) (N - 4)"
        using Pb Nb pfacts S24 by (subst GET_PUT_other) auto
      then have e4: "FTRP (PUT (mem s2) (P - 4) v) N = P + t - 8"
        using hN te by (simp add: FTRP_def HDRP_def GET_SIZE_def nszu)
      define m2 where "m2 = PUT (PUT (mem s2) (P - 4) v) (P + t - 8) v"
      have eq: "coalesce_seg s bp = (P, push_root_seg (s2\<lparr>mem := m2\<rparr>) (get_segid w) P)"
        using pf nf pa na e1 e2 e3 e4 nw'
        unfolding coalesce_seg_def m_def s1_def s2_def m2_def w_def szw_def pw_def nw_def v_def
          P_def N_def
        by (simp add: Let_def HDRP_def)
      have out: "\<forall>i<8. \<forall>x \<in> set (fl2 i). x + 16 \<le> r - 4 \<or> r + t - 4 \<le> x"
      proof (intro allI impI ballI)
        fix i x assume i: "i < 8" and x: "x \<in> set (fl2 i)"
        have N1: "N \<in> set (fl1 (class_of m N))" using Nb1 by (auto dest: in_set_butlastD)
        note u2 = unlinked_nodes [OF ul N1 i x [unfolded fl2_def]]
        note u1 = unlinked_nodes [OF F Pin i u2(1) [unfolded fl1_def]]
        show "x + 16 \<le> r - 4 \<or> r + t - 4 \<le> x" using SEP i u1 u2(2) by blast
      qed
      have F3: "free_lists (s2\<lparr>mem := m2\<rparr>) fl2"
        unfolding m2_def
        by (rule free_lists_PUT2 [OF ul2]) (use out rt t24 in fastforce)+
      have hd: "uint (GET_SIZE (mem (s2\<lparr>mem := m2\<rparr>)) (r - 4)) = t"
        "GET_ALLOC (mem (s2\<lparr>mem := m2\<rparr>)) (r - 4) = 0"
        using tg t24 tags_after_PUTs(1) [of "P - 4" "P + t - 8" "mem s2" v]
        by (simp_all add: m2_def rt(1) GET_SIZE_def GET_ALLOC_def)
      have ft: "uint (GET_SIZE (mem (s2\<lparr>mem := m2\<rparr>)) (r + t - 8)) = t"
        "GET_ALLOC (mem (s2\<lparr>mem := m2\<rparr>)) (r + t - 8) = 0"
        using tg by (simp_all add: m2_def rt(1) GET_SIZE_def GET_ALLOC_def GET_PUT_same)
      have cl: "coalesce_lists fl m bp
                = fl2(get_segid (word_of_int t) := r # fl2 (get_segid (word_of_int t)))"
        using pf nf by (simp add: coalesce_lists_def Let_def r_def t_def fl1_def fl2_def P_def N_def)
      note fin = coalesced_finish [OF F3 _ _ t24 out hd ft w]
      show ?thesis
        using fin Prep rt(1) eq cl by (simp add: r_def t_def m_def)
    qed
  qed
qed

lemma all_less_8: "(\<forall>i<(8::nat). P i) \<longleftrightarrow> (\<forall>i \<in> set [0, 1, 2, 3, 4, 5, 6, 7]. P i)"
  unfolding upt_8 [symmetric] by auto

lemma seg_grown_eq:
  "seg_grown = seg_init\<lparr>mem := put_all (mem seg_init)
       [(69772, 4096), (73864, 4096), (73868, 1)], mem_brk := 73872\<rparr>"
  unfolding seg_grown_def seg_init_eq
  by (simp add: eval_macros cong: let_weak_cong prod.case_cong_weak)

lemma extend_heap_seg_grown:
  "extend_heap_seg seg_init 1024 = coalesce_seg seg_grown 69776"
  unfolding seg_grown_def extend_heap_seg_def seg_init_eq
  by (simp add: eval_macros cong: let_weak_cong prod.case_cong_weak)

lemma free_lists_grown: "free_lists seg_grown lists_grown"
  unfolding seg_grown_eq seg_init_eq free_lists_def all_less_8 lists_grown_def
  by (simp add: eval_macros)

lemma coalesce_pre_grown: "coalesce_pre seg_grown lists_grown 69776"
  unfolding coalesce_pre_def
  apply (intro conjI free_lists_grown)
  unfolding seg_grown_eq seg_init_eq all_less_8 lists_grown_def
             apply (simp_all add: eval_macros blk_size_def prev_free_def next_free_def
      merged_size_def merged_head_def class_of_def get_segid_def)
  done

theorem coalesce_seg_spec_witness:
  "coalesce_pre seg_grown lists_grown 69776
   \<and> extend_heap_seg seg_init 1024 = coalesce_seg seg_grown 69776
   \<and> fst (coalesce_seg seg_grown 69776) = merged_head (mem seg_grown) 69776
   \<and> coalesced (snd (coalesce_seg seg_grown 69776))
        (merged_head (mem seg_grown) 69776) (merged_size (mem seg_grown) 69776)
   \<and> free_lists (snd (coalesce_seg seg_grown 69776))
        (coalesce_lists lists_grown (mem seg_grown) 69776)"
  using coalesce_seg_spec [OF coalesce_pre_grown] coalesce_pre_grown extend_heap_seg_grown
  by simp

end
